theory Spec2Isabelle
  imports Main
begin

section \<open>JavaScript values\<close>

text \<open>
  The service layer of \<^verbatim>\<open>src/api/base/index.ts\<close> handles values typed \<^verbatim>\<open>any\<close>.
  They are modelled by the JSON-shaped fragment of JavaScript below. A number is an
  integer (the counter of the allocator and the sort direction are the only numbers the
  code computes with; beyond \<open>2\<^sup>5\<^sup>3\<close>, where a JavaScript number is no longer exact, the
  model does not follow it); an object is its list of own properties in insertion order;
  a \<^verbatim>\<open>Date\<close> is its time value in milliseconds.
\<close>

datatype jsval =
    JUndefined
  | JNull
  | JBool bool
  | JNum int
  | JStr string
  | JDate nat
  | JArr "jsval list"
  | JObj "(string \<times> jsval) list"

type_synonym obj = "(string \<times> jsval) list"

text \<open>Truthiness, as tested by \<^verbatim>\<open>!x\<close> and \<^verbatim>\<open>if (x)\<close>.\<close>

fun truthy :: "jsval \<Rightarrow> bool" where
  "truthy JUndefined = False"
| "truthy JNull = False"
| "truthy (JBool b) = b"
| "truthy (JNum n) = (n \<noteq> 0)"
| "truthy (JStr s) = (s \<noteq> [])"
| "truthy (JDate t) = True"
| "truthy (JArr xs) = True"
| "truthy (JObj fs) = True"

subsection \<open>Insertion-ordered maps\<close>

text \<open>
  A JavaScript \<^verbatim>\<open>Map\<close> and the own properties of an object keep insertion order;
  setting an existing key replaces the value in place, a new key goes to the end.
\<close>

fun map_set :: "'k \<Rightarrow> 'v \<Rightarrow> ('k \<times> 'v) list \<Rightarrow> ('k \<times> 'v) list" where
  "map_set k v [] = [(k, v)]"
| "map_set k v ((k', v') # m) = (if k = k' then (k, v) # m else (k', v') # map_set k v m)"

definition map_delete :: "'k \<Rightarrow> ('k \<times> 'v) list \<Rightarrow> ('k \<times> 'v) list" where
  "map_delete k m = filter (\<lambda>kv. fst kv \<noteq> k) m"

text \<open>
  Reading a property \<^verbatim>\<open>v[k]\<close> of a value that is neither \<^verbatim>\<open>null\<close> nor
  \<^verbatim>\<open>undefined\<close>, for the property names this program uses (\<^verbatim>\<open>query\<close>,
  \<^verbatim>\<open>$sort\<close>, \<^verbatim>\<open>value\<close>, \<^verbatim>\<open>_id\<close>, \<^verbatim>\<open>internal\<close>): only an object has them.
\<close>

definition get_prop :: "string \<Rightarrow> jsval \<Rightarrow> jsval" where
  "get_prop k v = (case v of JObj fs \<Rightarrow> (case map_of fs k of Some x \<Rightarrow> x | None \<Rightarrow> JUndefined)
                       | _ \<Rightarrow> JUndefined)"

definition isNil :: "jsval \<Rightarrow> bool" where
  "isNil v = (v = JUndefined \<or> v = JNull)"

subsection \<open>Decimal numerals\<close>

fun show_nat :: "nat \<Rightarrow> string" where
  "show_nat n = (if n < 10 then [''0123456789'' ! n]
                 else show_nat (n div 10) @ [''0123456789'' ! (n mod 10)])"

declare show_nat.simps [simp del]

definition show_int :: "int \<Rightarrow> string" where
  "show_int i = (if i < 0 then CHR ''-'' # show_nat (nat (- i)) else show_nat (nat i))"

subsection \<open>The Ramda lens on \<^verbatim>\<open>query.$sort\<close>\<close>

text \<open>
  \<^verbatim>\<open>const sortL = lens(path(['query', '$sort']), assocPath(['query', '$sort']))\<close>
  (line 32). \<^verbatim>\<open>path\<close> returns \<^verbatim>\<open>undefined\<close> as soon as it meets \<^verbatim>\<open>null\<close> or
  \<^verbatim>\<open>undefined\<close>. \<^verbatim>\<open>assoc\<close> copies the enumerable properties of its argument into a
  fresh object and sets the property there; \<^verbatim>\<open>assocPath\<close> descends into an own
  property that holds an object and starts from \<^verbatim>\<open>{}\<close> otherwise.
\<close>

fun path :: "string list \<Rightarrow> jsval \<Rightarrow> jsval" where
  "path [] v = v"
| "path (k # ks) v = (if isNil v then JUndefined else path ks (get_prop k v))"

definition enumerable :: "jsval \<Rightarrow> obj" where
  "enumerable v = (case v of
       JObj fs \<Rightarrow> fs
     | JArr xs \<Rightarrow> zip (map show_nat [0 ..< length xs]) xs
     | JStr s \<Rightarrow> zip (map show_nat [0 ..< length s]) (map (\<lambda>c. JStr [c]) s)
     | _ \<Rightarrow> [])"

definition assoc :: "string \<Rightarrow> jsval \<Rightarrow> jsval \<Rightarrow> jsval" where
  "assoc k x v = JObj (map_set k x (enumerable v))"

definition has_own :: "string \<Rightarrow> jsval \<Rightarrow> bool" where
  "has_own k v = (case v of JObj fs \<Rightarrow> map_of fs k \<noteq> None | _ \<Rightarrow> False)"

definition typeof_object :: "jsval \<Rightarrow> bool" where
  "typeof_object v = (case v of JNull \<Rightarrow> True | JDate t \<Rightarrow> True | JArr xs \<Rightarrow> True
                               | JObj fs \<Rightarrow> True | _ \<Rightarrow> False)"

fun assocPath :: "string list \<Rightarrow> jsval \<Rightarrow> jsval \<Rightarrow> jsval" where
  "assocPath [] x v = x"
| "assocPath [k] x v = assoc k x v"
| "assocPath (k # ks) x v =
     assoc k (assocPath ks x
                (if \<not> isNil v \<and> has_own k v \<and> typeof_object (get_prop k v) then get_prop k v
                 else JObj [])) v"

definition view_sortL :: "jsval \<Rightarrow> jsval" where
  "view_sortL params = path [''query'', ''$sort''] params"

definition set_sortL :: "jsval \<Rightarrow> jsval \<Rightarrow> jsval" where
  "set_sortL x params = assocPath [''query'', ''$sort''] x params"

subsection \<open>Built-ins taken as parameters\<close>

text \<open>
  \<^verbatim>\<open>JSON.stringify\<close> produces the cache and queue keys; nothing in the service layer
  looks inside a key, so the serialisation is a parameter (a total one: the values of
  this model have no cycles, on which \<^verbatim>\<open>JSON.stringify\<close> would throw). The allocator
  computes
  \<^verbatim>\<open>value + 1\<close>, \<^verbatim>\<open>newId > 0\<close> and \<^verbatim>\<open>String(newId)\<close>: on numbers these are
  written out below, on any other operand JavaScript's coercions apply and are left to
  the parameters.
\<close>

record builtins =
  stringify :: "jsval \<Rightarrow> string"
  coerce_plus_one :: "jsval \<Rightarrow> jsval"
  coerce_gt_zero :: "jsval \<Rightarrow> bool"
  coerce_String :: "jsval \<Rightarrow> string"

definition plus_one :: "builtins \<Rightarrow> jsval \<Rightarrow> jsval" where
  "plus_one B v = (case v of JNum n \<Rightarrow> JNum (n + 1) | _ \<Rightarrow> coerce_plus_one B v)"

definition gt_zero :: "builtins \<Rightarrow> jsval \<Rightarrow> bool" where
  "gt_zero B v = (case v of JNum n \<Rightarrow> 0 < n | _ \<Rightarrow> coerce_gt_zero B v)"

definition to_String :: "builtins \<Rightarrow> jsval \<Rightarrow> string" where
  "to_String B v = (case v of JNum n \<Rightarrow> show_int n | _ \<Rightarrow> coerce_String B v)"

section \<open>Result envelopes\<close>

text \<open>
  \<^verbatim>\<open>formatData\<close> (lines 77-95) builds one of two object literals:
  \<^verbatim>\<open>{ resultCode: 'Error', errorMessage: error.message }\<close> or
  \<^verbatim>\<open>{ resultCode: 'OK', payload: result }\<close>. A field that the literal does not
  mention is absent (\<open>None\<close>). The store's promise either resolves with a value or rejects
  with an \<^verbatim>\<open>Error\<close> (the annotation of line 79), of which only the message is kept.
\<close>

datatype code = OK | Error

record envelope =
  resultCode :: code
  payload :: "jsval option"
  errorMessage :: "string option"

datatype outcome = Resolved jsval | Rejected string

definition formatData :: "outcome \<Rightarrow> envelope" where
  "formatData out = (case out of
       Rejected msg \<Rightarrow> \<lparr>resultCode = Error, payload = None, errorMessage = Some msg\<rparr>
     | Resolved result \<Rightarrow> \<lparr>resultCode = OK, payload = Some result, errorMessage = None\<rparr>)"

definition well_formed :: "envelope \<Rightarrow> bool" where
  "well_formed e = (case resultCode e of
       OK \<Rightarrow> payload e \<noteq> None \<and> errorMessage e = None
     | Error \<Rightarrow> errorMessage e \<noteq> None \<and> payload e = None)"

section \<open>Services, pending store calls and the event loop\<close>

text \<open>
  Every method of \<^verbatim>\<open>BaseService\<close> is an \<^verbatim>\<open>async\<close> function: it runs until it awaits
  a call of the underlying store, and is resumed when the store settles that call. The
  model splits each method at these awaits: the part before (named as the method) and the
  part after (suffix \<open>_cont\<close>). A part runs without interruption, as JavaScript runs one
  task at a time; an \<^verbatim>\<open>await\<close> of a value that is already there is not a point where
  another request gets in.

  Who awaits the promise of a call is an \<open>awaiter\<close>: a client outside the service layer;
  nobody (the promise is dropped); or \<^verbatim>\<open>createNormal\<close> at line 161, which passes the
  envelope to the \<^verbatim>\<open>resolve\<close> of the queue entry and then returns its own \<^verbatim>\<open>result\<close>
  to \<^verbatim>\<open>formatData\<close> and so to its own awaiter. \<^verbatim>\<open>get\<close> is also awaited by
  \<^verbatim>\<open>createIncremental\<close> at line 168, holding the data and params of the create.
\<close>

datatype awaiter =
    Client nat
  | Unobserved
  | Replay awaiter jsval awaiter

datatype getter =
    Caller awaiter
  | Allocator obj jsval awaiter

record queued =
  q_data :: obj
  q_params :: jsval
  q_resolve :: awaiter

record service =
  cachedFind :: "(string \<times> envelope) list"
  cachedGet :: "(string \<times> envelope) list"
  isCreationInProcess :: bool
  creationQueue :: "(string \<times> queued) list"

datatype sid = Docs | Opts

datatype storecall =
    SFind jsval
  | SGet jsval jsval
  | SCreate jsval jsval
  | SUpdate jsval jsval jsval
  | SPatch jsval jsval jsval
  | SRemove jsval jsval

datatype cont =
    FindK string awaiter
  | GetK string getter
  | CreateK awaiter
  | UpdateK awaiter
  | PatchK awaiter
  | RemoveK awaiter

text \<open>
  The system: a service \<open>Docs\<close> built by \<^verbatim>\<open>new BaseService({...})\<close> with its two flags,
  and the Options service \<open>Opts\<close> that \<^verbatim>\<open>setup\<close> hands to it, built at lines 31-34 of
  \<^verbatim>\<open>src/api/options/index.ts\<close> with the defaults \<^verbatim>\<open>incremental = false\<close> and
  \<^verbatim>\<open>cacheable = true\<close>. \<open>pending\<close> holds the store calls that have not settled, each
  with the service that made it and what resumes after it; \<open>dispatched\<close> logs every call
  of a method of a store, in order; \<open>delivered\<close> logs every envelope a client's promise
  resolved with, \<open>raised\<close> every error thrown to a client.
\<close>

record system =
  incremental :: bool
  cacheable :: bool
  docs :: service
  opts :: service
  pending :: "(nat \<times> sid \<times> storecall \<times> cont) list"
  nextp :: nat
  dispatched :: "(sid \<times> storecall) list"
  delivered :: "(nat \<times> envelope) list"
  raised :: "(nat \<times> string) list"

definition new_service :: service where
  "new_service = \<lparr>cachedFind = [], cachedGet = [], isCreationInProcess = False,
                   creationQueue = []\<rparr>"

definition init :: "bool \<Rightarrow> bool \<Rightarrow> system" where
  "init inc cach = \<lparr>incremental = inc, cacheable = cach, docs = new_service,
                     opts = new_service, pending = [], nextp = 0, dispatched = [],
                     delivered = [], raised = []\<rparr>"

definition the_service :: "system \<Rightarrow> sid \<Rightarrow> service" where
  "the_service s i = (case i of Docs \<Rightarrow> docs s | Opts \<Rightarrow> opts s)"

definition on_service :: "sid \<Rightarrow> (service \<Rightarrow> service) \<Rightarrow> system \<Rightarrow> system" where
  "on_service i f s = (case i of Docs \<Rightarrow> s\<lparr>docs := f (docs s)\<rparr>
                                | Opts \<Rightarrow> s\<lparr>opts := f (opts s)\<rparr>)"

definition is_incremental :: "system \<Rightarrow> sid \<Rightarrow> bool" where
  "is_incremental s i = (case i of Docs \<Rightarrow> incremental s | Opts \<Rightarrow> False)"

definition is_cacheable :: "system \<Rightarrow> sid \<Rightarrow> bool" where
  "is_cacheable s i = (case i of Docs \<Rightarrow> cacheable s | Opts \<Rightarrow> True)"

definition dispatch :: "sid \<Rightarrow> storecall \<Rightarrow> cont \<Rightarrow> system \<Rightarrow> system" where
  "dispatch i c k s = s\<lparr>pending := pending s @ [(nextp s, i, c, k)],
                         nextp := Suc (nextp s),
                         dispatched := dispatched s @ [(i, c)]\<rparr>"

fun finish :: "awaiter \<Rightarrow> envelope \<Rightarrow> system \<Rightarrow> system" where
  "finish (Client n) e s = s\<lparr>delivered := delivered s @ [(n, e)]\<rparr>"
| "finish Unobserved e s = s"
| "finish (Replay r result aw) e s = finish aw (formatData (Resolved result)) (finish r e s)"

subsection \<open>\<^verbatim>\<open>BaseService\<close>\<close>

definition clearCache :: "service \<Rightarrow> service" where
  "clearCache v = v\<lparr>cachedFind := [], cachedGet := []\<rparr>"

definition id_descending :: jsval where
  "id_descending = JObj [(''id'', JNum (- 1))]"

text \<open>Lines 108-112: the params that \<^verbatim>\<open>find\<close> goes on with.\<close>

definition find_params :: "system \<Rightarrow> sid \<Rightarrow> jsval \<Rightarrow> jsval" where
  "find_params s i params =
     (if is_incremental s i \<and> \<not> truthy (view_sortL params) then set_sortL id_descending params
      else params)"

definition base_find :: "builtins \<Rightarrow> sid \<Rightarrow> jsval \<Rightarrow> awaiter \<Rightarrow> system \<Rightarrow> system" where
  "base_find B i params aw s =
     (let params' = find_params s i params;
          key = stringify B params'
      in case (if is_cacheable s i then map_of (cachedFind (the_service s i)) key else None) of
           Some e \<Rightarrow> finish aw e s
         | None \<Rightarrow> dispatch i (SFind params') (FindK key aw) s)"

definition find_cont :: "sid \<Rightarrow> string \<Rightarrow> awaiter \<Rightarrow> outcome \<Rightarrow> system \<Rightarrow> system" where
  "find_cont i key aw out s =
     (let result = formatData out;
          s' = (if is_cacheable s i \<and> resultCode result = OK
                then on_service i (\<lambda>v. v\<lparr>cachedFind := map_set key result (cachedFind v)\<rparr>) s
                else s)
      in finish aw result s')"

text \<open>
  \<^verbatim>\<open>get\<close> (lines 132-149). On a cache hit the envelope is there at once and is handed
  back to the caller of \<open>base_get\<close>; otherwise the store call is pending.
\<close>

definition base_get ::
  "builtins \<Rightarrow> sid \<Rightarrow> jsval \<Rightarrow> jsval \<Rightarrow> getter \<Rightarrow> system \<Rightarrow> envelope option \<times> system" where
  "base_get B i ident params w s =
     (let key = stringify B (JArr [ident, params])
      in case (if is_cacheable s i then map_of (cachedGet (the_service s i)) key else None) of
           Some e \<Rightarrow> (Some e, s)
         | None \<Rightarrow> (None, dispatch i (SGet ident params) (GetK key w) s))"

definition createNormal :: "sid \<Rightarrow> obj \<Rightarrow> jsval \<Rightarrow> awaiter \<Rightarrow> system \<Rightarrow> system" where
  "createNormal i data params aw s = dispatch i (SCreate (JObj data) params) (CreateK aw) s"

text \<open>
  \<^verbatim>\<open>create\<close> (lines 186-207). \<open>go\<close> is the branch
  \<^verbatim>\<open>this.incremental ? this.createIncremental(...) : this.createNormal(...)\<close> of the
  instance.
\<close>

definition base_create ::
  "builtins \<Rightarrow> (obj \<Rightarrow> jsval \<Rightarrow> awaiter \<Rightarrow> system \<Rightarrow> system) \<Rightarrow> sid \<Rightarrow> nat \<Rightarrow> obj \<Rightarrow> jsval
     \<Rightarrow> awaiter \<Rightarrow> system \<Rightarrow> system" where
  "base_create B go i now data params aw s =
     (let data' = map_set ''created'' (JDate now) data
      in if isCreationInProcess (the_service s i)
         then on_service i (\<lambda>v. v\<lparr>creationQueue :=
                  map_set (stringify B (JArr [JObj data', params]))
                          \<lparr>q_data = data', q_params = params, q_resolve = aw\<rparr>
                          (creationQueue v)\<rparr>) s
         else go data' params aw (on_service i (\<lambda>v. v\<lparr>isCreationInProcess := True\<rparr>) s))"

definition base_update ::
  "sid \<Rightarrow> nat \<Rightarrow> jsval \<Rightarrow> obj \<Rightarrow> jsval \<Rightarrow> awaiter \<Rightarrow> system \<Rightarrow> system" where
  "base_update i now ident data params aw s =
     dispatch i (SUpdate ident (JObj (map_set ''updated'' (JDate now) data)) params)
       (UpdateK aw) s"

definition base_patch :: "sid \<Rightarrow> jsval \<Rightarrow> jsval \<Rightarrow> jsval \<Rightarrow> awaiter \<Rightarrow> system \<Rightarrow> system" where
  "base_patch i ident data params aw s = dispatch i (SPatch ident data params) (PatchK aw) s"

definition base_remove :: "sid \<Rightarrow> jsval \<Rightarrow> jsval \<Rightarrow> awaiter \<Rightarrow> system \<Rightarrow> system" where
  "base_remove i ident params aw s = dispatch i (SRemove ident params) (RemoveK aw) s"

text \<open>Lines 213-216, 222-225 and 231-234: wrap, clear both caches, return.\<close>

definition mutation_cont :: "sid \<Rightarrow> awaiter \<Rightarrow> outcome \<Rightarrow> system \<Rightarrow> system" where
  "mutation_cont i aw out s = finish aw (formatData out) (on_service i clearCache s)"

subsection \<open>\<^verbatim>\<open>OptionsService\<close>\<close>

text \<open>
  \<^verbatim>\<open>find\<close> and \<^verbatim>\<open>create\<close> of \<^verbatim>\<open>src/api/options/index.ts\<close> are not \<^verbatim>\<open>async\<close>:
  what they throw reaches the caller as a thrown error (\<open>Inl\<close>). The assignment
  \<^verbatim>\<open>params.query.internal = {...}\<close> throws a \<^verbatim>\<open>TypeError\<close> unless \<^verbatim>\<open>params.query\<close>
  is an object. (An array or a \<^verbatim>\<open>Date\<close> as \<^verbatim>\<open>query\<close>, on which JavaScript would set
  the property, cannot carry it in this type of values and is treated as the primitive
  values are; a service is handed a plain query object or none.)
\<close>

definition optionLastId :: string where
  "optionLastId = ''last_id''"

definition ne_true :: jsval where
  "ne_true = JObj [(''$ne'', JBool True)]"

definition options_query :: "jsval \<Rightarrow> string + jsval" where
  "options_query params = (case params of
       JObj ps \<Rightarrow> (case map_of ps ''query'' of
           Some (JObj q) \<Rightarrow> Inr (JObj (map_set ''query'' (JObj (map_set ''internal'' ne_true q)) ps))
         | _ \<Rightarrow> Inl ''TypeError'')
     | _ \<Rightarrow> Inl ''TypeError'')"

definition options_find ::
  "builtins \<Rightarrow> jsval \<Rightarrow> awaiter \<Rightarrow> system \<Rightarrow> string + system" where
  "options_find B params aw s = (case options_query params of
       Inl err \<Rightarrow> Inl err
     | Inr params' \<Rightarrow> Inr (base_find B Opts params' aw s))"

definition options_create ::
  "builtins \<Rightarrow> nat \<Rightarrow> obj \<Rightarrow> jsval \<Rightarrow> awaiter \<Rightarrow> system \<Rightarrow> string + system" where
  "options_create B now data params aw s =
     (if \<not> truthy (get_prop ''_id'' (JObj data)) then Inl ''ID parameter is mandatory!''
      else Inr (base_create B (createNormal Opts) Opts now data params aw s))"

subsection \<open>The allocator\<close>

text \<open>
  \<^verbatim>\<open>createIncremental\<close> after its \<^verbatim>\<open>await this.optionsService.get(optionLastId)\<close>
  (lines 169-183); \<open>next_id\<close> is \<^verbatim>\<open>newId\<close> after line 173. Reading
  \<^verbatim>\<open>.payload.value\<close> throws a \<^verbatim>\<open>TypeError\<close> when the payload
  is \<^verbatim>\<open>null\<close> or \<^verbatim>\<open>undefined\<close>; what \<^verbatim>\<open>createIncremental\<close> throws rejects its promise,
  which \<^verbatim>\<open>formatData\<close> turns into an envelope for the awaiter of the create. Line 175
  reads \<^verbatim>\<open>await newId > 0 ? update(...) : create(...)\<close>: the operand of \<^verbatim>\<open>await\<close> is
  \<^verbatim>\<open>newId\<close>, so the call to the Options service is made and its promise dropped.
\<close>

definition next_id :: "builtins \<Rightarrow> envelope \<Rightarrow> string + jsval" where
  "next_id B serviceLastId =
     (if resultCode serviceLastId = OK
      then (case payload serviceLastId of
              None \<Rightarrow> Inl ''TypeError''
            | Some p \<Rightarrow> if isNil p then Inl ''TypeError''
                        else Inr (plus_one B (get_prop ''value'' p)))
      else Inr (JNum 0))"

definition createIncremental_cont ::
  "builtins \<Rightarrow> nat \<Rightarrow> obj \<Rightarrow> jsval \<Rightarrow> awaiter \<Rightarrow> envelope \<Rightarrow> system \<Rightarrow> system" where
  "createIncremental_cont B now data params aw serviceLastId s =
     (case next_id B serviceLastId of
        Inl err \<Rightarrow> finish aw (formatData (Rejected err)) s
      | Inr newId \<Rightarrow>
         (let written =
              (if gt_zero B newId
               then Inr (base_update Opts now (JStr optionLastId)
                           [(''value'', newId), (''internal'', JBool True)] JUndefined Unobserved s)
               else options_create B now
                      [(''_id'', JStr optionLastId), (''value'', newId), (''internal'', JBool True)]
                      JUndefined Unobserved s)
          in (case written of
               Inl err \<Rightarrow> finish aw (formatData (Rejected err)) s
             | Inr s' \<Rightarrow> createNormal Docs (map_set ''_id'' (JStr (to_String B newId)) data)
                           params aw s')))"

definition createIncremental ::
  "builtins \<Rightarrow> nat \<Rightarrow> obj \<Rightarrow> jsval \<Rightarrow> awaiter \<Rightarrow> system \<Rightarrow> system" where
  "createIncremental B now data params aw s =
     (case base_get B Opts (JStr optionLastId) JUndefined (Allocator data params aw) s of
        (Some e, s') \<Rightarrow> createIncremental_cont B now data params aw e s'
      | (None, s') \<Rightarrow> s')"

text \<open>\<^verbatim>\<open>this.create\<close>, as the instance dispatches it.\<close>

definition create ::
  "builtins \<Rightarrow> sid \<Rightarrow> nat \<Rightarrow> obj \<Rightarrow> jsval \<Rightarrow> awaiter \<Rightarrow> system \<Rightarrow> string + system" where
  "create B i now data params aw s = (case i of
       Opts \<Rightarrow> options_create B now data params aw s
     | Docs \<Rightarrow> Inr (base_create B
                     (if incremental s then createIncremental B now else createNormal Docs)
                     Docs now data params aw s))"

subsection \<open>Resuming after the store\<close>

definition get_cont ::
  "builtins \<Rightarrow> nat \<Rightarrow> sid \<Rightarrow> string \<Rightarrow> getter \<Rightarrow> outcome \<Rightarrow> system \<Rightarrow> system" where
  "get_cont B now i key w out s =
     (let result = formatData out;
          s' = (if is_cacheable s i \<and> resultCode result = OK
                then on_service i (\<lambda>v. v\<lparr>cachedGet := map_set key result (cachedGet v)\<rparr>) s
                else s)
      in case w of
           Caller aw \<Rightarrow> finish aw result s'
         | Allocator data params aw \<Rightarrow> createIncremental_cont B now data params aw result s')"

text \<open>
  \<^verbatim>\<open>createNormal\<close> after \<^verbatim>\<open>await super.create(data, params)\<close> (lines 153-164). A
  rejection leaves the method at line 152: nothing below runs.
\<close>

definition createNormal_cont ::
  "builtins \<Rightarrow> nat \<Rightarrow> sid \<Rightarrow> awaiter \<Rightarrow> outcome \<Rightarrow> system \<Rightarrow> system" where
  "createNormal_cont B now i aw out s = (case out of
       Rejected msg \<Rightarrow> finish aw (formatData (Rejected msg)) s
     | Resolved result \<Rightarrow>
        (let s1 = on_service i (\<lambda>v. (clearCache v)\<lparr>isCreationInProcess := False\<rparr>) s
         in (case creationQueue (the_service s1 i) of
              [] \<Rightarrow> finish aw (formatData (Resolved result)) s1
            | (key, val) # rest \<Rightarrow>
               (let s2 = on_service i
                           (\<lambda>v. v\<lparr>creationQueue := map_delete key (creationQueue v)\<rparr>) s1
                in (case create B i now (q_data val) (q_params val)
                          (Replay (q_resolve val) result aw) s2 of
                     Inl err \<Rightarrow> finish aw (formatData (Rejected err)) s2
                   | Inr s3 \<Rightarrow> s3)))))"

subsection \<open>Events\<close>

datatype request =
    Find jsval
  | Get jsval jsval
  | Create obj jsval
  | Update jsval obj jsval
  | Patch jsval jsval jsval
  | Remove jsval jsval

text \<open>
  \<open>Call now i c r\<close>: client \<open>c\<close> calls a method of service \<open>i\<close> when the clock reads
  \<open>now\<close>. \<open>Settle now p out\<close>: the store settles its pending call \<open>p\<close>.
  \<open>Faulty now i c r msg\<close>: the call \<open>Call now i c r\<close>, made while the methods of the
  stores throw \<open>msg\<close> instead of returning a promise.
\<close>

datatype event =
    Call nat sid nat request
  | Settle nat nat outcome
  | Faulty nat sid nat request string

definition throw :: "nat \<Rightarrow> string + system \<Rightarrow> system \<Rightarrow> system" where
  "throw c r s = (case r of Inl err \<Rightarrow> s\<lparr>raised := raised s @ [(c, err)]\<rparr> | Inr s' \<Rightarrow> s')"

definition call :: "builtins \<Rightarrow> nat \<Rightarrow> sid \<Rightarrow> nat \<Rightarrow> request \<Rightarrow> system \<Rightarrow> system" where
  "call B now i c r s = (case r of
       Find params \<Rightarrow> (case i of
           Docs \<Rightarrow> base_find B Docs params (Client c) s
         | Opts \<Rightarrow> throw c (options_find B params (Client c) s) s)
     | Get ident params \<Rightarrow> (case base_get B i ident params (Caller (Client c)) s of
           (Some e, s') \<Rightarrow> finish (Client c) e s'
         | (None, s') \<Rightarrow> s')
     | Create data params \<Rightarrow> throw c (create B i now data params (Client c) s) s
     | Update ident data params \<Rightarrow> base_update i now ident data params (Client c) s
     | Patch ident data params \<Rightarrow> base_patch i ident data params (Client c) s
     | Remove ident params \<Rightarrow> base_remove i ident params (Client c) s)"

definition settle :: "builtins \<Rightarrow> nat \<Rightarrow> nat \<Rightarrow> outcome \<Rightarrow> system \<Rightarrow> system" where
  "settle B now p out s = (case map_of (pending s) p of
       None \<Rightarrow> s
     | Some (i, c, k) \<Rightarrow>
        (let s' = s\<lparr>pending := map_delete p (pending s)\<rparr>
         in (case k of
              FindK key aw \<Rightarrow> find_cont i key aw out s'
            | GetK key w \<Rightarrow> get_cont B now i key w out s'
            | CreateK aw \<Rightarrow> createNormal_cont B now i aw out s'
            | UpdateK aw \<Rightarrow> mutation_cont i aw out s'
            | PatchK aw \<Rightarrow> mutation_cont i aw out s'
            | RemoveK aw \<Rightarrow> mutation_cont i aw out s')))"

subsection \<open>A store method that throws\<close>

text \<open>
  A method of the store can also throw instead of returning a promise. The error then
  leaves the \<^verbatim>\<open>async\<close> method that made the call as the rejection of that method's
  promise: nothing of the method runs after the call, and the call leaves nothing pending.
  \<^verbatim>\<open>find\<close>, \<^verbatim>\<open>get\<close>, \<^verbatim>\<open>update\<close>, \<^verbatim>\<open>patch\<close> and \<^verbatim>\<open>remove\<close> make the call while
  they evaluate the argument of \<^verbatim>\<open>formatData\<close> (lines 123, 142, 213, 222, 231):
  \<^verbatim>\<open>formatData\<close> is not entered, and it is their own promise that is rejected.
  \<^verbatim>\<open>createNormal\<close> makes the call at line 152, and its promise (or that of
  \<^verbatim>\<open>createIncremental\<close>, when the rejected promise is the one of \<^verbatim>\<open>get\<close> awaited at line
  168) is what \<^verbatim>\<open>create\<close> hands to \<^verbatim>\<open>formatData\<close> at line 202: the create is answered
  with an \<^verbatim>\<open>Error\<close> envelope, and lines 153-154 have not run.

  \<open>reject\<close>: what a rejected promise means for who awaits it. A client has the error
  raised; a dropped promise is lost; the \<^verbatim>\<open>await\<close> of line 161 throws inside
  \<^verbatim>\<open>createNormal\<close> before \<^verbatim>\<open>resolve\<close> is called, and the create that this
  \<^verbatim>\<open>createNormal\<close> works for is answered with the \<^verbatim>\<open>Error\<close> envelope.
  \<open>thrown k msg\<close>: the store call that \<open>k\<close> would have resumed after throws \<open>msg\<close>.

  Every method makes its store call as the last thing it does before it awaits. So a
  call during which the store's methods throw is the call as written above, with every
  store call it has made taken out of \<open>pending\<close> again and thrown instead, in the order
  in which they were made (\<open>unwind\<close>).

  Only calls are modelled with a throwing store. In the parts that resume after the store,
  the store calls are those of the allocator and of a replayed create, made inside
  \<^verbatim>\<open>createNormal\<close>, inside the \<^verbatim>\<open>get\<close> awaited at line 168 or inside an \<^verbatim>\<open>update\<close>
  whose promise is dropped: a throw there reaches no caller as a raised error, it ends in
  an \<^verbatim>\<open>Error\<close> envelope or is lost, as a rejection does.
\<close>

fun reject :: "awaiter \<Rightarrow> string \<Rightarrow> system \<Rightarrow> system" where
  "reject (Client n) msg s = s\<lparr>raised := raised s @ [(n, msg)]\<rparr>"
| "reject Unobserved msg s = s"
| "reject (Replay r result aw) msg s = finish aw (formatData (Rejected msg)) s"

definition thrown :: "cont \<Rightarrow> string \<Rightarrow> system \<Rightarrow> system" where
  "thrown k msg s = (case k of
       FindK key aw \<Rightarrow> reject aw msg s
     | GetK key w \<Rightarrow> (case w of
           Caller aw \<Rightarrow> reject aw msg s
         | Allocator data params aw \<Rightarrow> finish aw (formatData (Rejected msg)) s)
     | CreateK aw \<Rightarrow> finish aw (formatData (Rejected msg)) s
     | UpdateK aw \<Rightarrow> reject aw msg s
     | PatchK aw \<Rightarrow> reject aw msg s
     | RemoveK aw \<Rightarrow> reject aw msg s)"

fun unwind :: "string \<Rightarrow> (nat \<times> sid \<times> storecall \<times> cont) list \<Rightarrow> system \<Rightarrow> system" where
  "unwind msg [] s = s"
| "unwind msg ((p, i, c, k) # made) s =
     unwind msg made (thrown k msg (s\<lparr>pending := map_delete p (pending s)\<rparr>))"

definition faulty_call ::
  "builtins \<Rightarrow> nat \<Rightarrow> sid \<Rightarrow> nat \<Rightarrow> request \<Rightarrow> string \<Rightarrow> system \<Rightarrow> system" where
  "faulty_call B now i c r msg s =
     (let s' = call B now i c r s
      in unwind msg (filter (\<lambda>t. nextp s \<le> fst t) (pending s')) s')"

fun step :: "builtins \<Rightarrow> event \<Rightarrow> system \<Rightarrow> system" where
  "step B (Call now i c r) s = call B now i c r s"
| "step B (Settle now p out) s = settle B now p out s"
| "step B (Faulty now i c r msg) s = faulty_call B now i c r msg s"

fun run :: "builtins \<Rightarrow> event list \<Rightarrow> system \<Rightarrow> system" where
  "run B [] s = s"
| "run B (ev # evs) s = run B evs (step B ev s)"

section \<open>A concrete instance for evaluation\<close>

text \<open>
  Concrete runs need concrete built-ins. \<open>show_js\<close> writes a value out in full, so that
  equal keys mean equal values; the coercions of non-numbers are fixed arbitrarily (the runs
  evaluated below only ever add to, compare and print numbers).
\<close>

fun show_js :: "jsval \<Rightarrow> string" where
  "show_js JUndefined = ''undefined''"
| "show_js JNull = ''null''"
| "show_js (JBool b) = (if b then ''true'' else ''false'')"
| "show_js (JNum n) = show_int n"
| "show_js (JStr s) = CHR 0x22 # s @ [CHR 0x22]"
| "show_js (JDate t) = CHR ''D'' # show_nat t"
| "show_js (JArr xs) = ''['' @ concat (map (\<lambda>x. show_js x @ '','') xs) @ '']''"
| "show_js (JObj fs) =
     ''{'' @ concat (map (\<lambda>(k, v). k @ '':'' @ show_js v @ '','') fs) @ ''}''"

definition js :: builtins where
  "js = \<lparr>stringify = show_js, coerce_plus_one = (\<lambda>v. JUndefined),
          coerce_gt_zero = (\<lambda>v. False), coerce_String = (\<lambda>v. ''NaN'')\<rparr>"

section \<open>Notions used in the statements\<close>

text \<open>What an awaiter hands on, in order: \<open>finish\<close> appends exactly this to the log.\<close>

fun deliveries :: "awaiter \<Rightarrow> envelope \<Rightarrow> (nat \<times> envelope) list" where
  "deliveries (Client n) e = [(n, e)]"
| "deliveries Unobserved e = []"
| "deliveries (Replay r result aw) e =
     deliveries r e @ deliveries aw (formatData (Resolved result))"

text \<open>A cache that holds well-formed \<^verbatim>\<open>OK\<close> envelopes only.\<close>

definition cache_ok :: "(string \<times> envelope) list \<Rightarrow> bool" where
  "cache_ok m = list_all (\<lambda>kv. well_formed (snd kv) \<and> resultCode (snd kv) = OK) m"

definition service_ok :: "service \<Rightarrow> bool" where
  "service_ok v = (cache_ok (cachedFind v) \<and> cache_ok (cachedGet v))"

definition envelopes_ok :: "system \<Rightarrow> bool" where
  "envelopes_ok s = (service_ok (docs s) \<and> service_ok (opts s)
                     \<and> list_all (\<lambda>ce. well_formed (snd ce)) (delivered s))"






text \<open>Pending store calls carry identifiers that have been handed out already.\<close>

definition fresh :: "system \<Rightarrow> bool" where
  "fresh s = list_all (\<lambda>t. fst t < nextp s) (pending s)"

text \<open>
  A property of the state that no step can break: it does not depend on the logs of
  answers and errors; it survives a change of a service that leaves the find cache alone
  or empties it, the caching of a find result (given \<open>C\<close> of the service, the key and
  the envelope), a new store call (for a find, given \<open>F\<close> of the service, the params and
  the key it will be cached under), and the settling of a pending call.
\<close>

definition is_FindK :: "cont \<Rightarrow> bool" where
  "is_FindK k = (case k of FindK key aw \<Rightarrow> True | _ \<Rightarrow> False)"

definition stable ::
  "(system \<Rightarrow> bool) \<Rightarrow> (sid \<Rightarrow> jsval \<Rightarrow> string \<Rightarrow> bool) \<Rightarrow> (sid \<Rightarrow> string \<Rightarrow> envelope \<Rightarrow> bool)
     \<Rightarrow> bool" where
  "stable P F C =
     ((\<forall>s d. P (s\<lparr>delivered := d\<rparr>) = P s)
    \<and> (\<forall>s r. P (s\<lparr>raised := r\<rparr>) = P s)
    \<and> (\<forall>s i f. P s \<longrightarrow> (\<forall>v. cachedFind (f v) = cachedFind v \<or> cachedFind (f v) = [])
           \<longrightarrow> P (on_service i f s))
    \<and> (\<forall>s i key e. P s \<longrightarrow> C i key e
           \<longrightarrow> P (on_service i (\<lambda>v. v\<lparr>cachedFind := map_set key e (cachedFind v)\<rparr>) s))
    \<and> (\<forall>s i c k. P s
           \<longrightarrow> (case c of SFind q \<Rightarrow> (case k of FindK key aw \<Rightarrow> F i q key | _ \<Rightarrow> False)
                         | _ \<Rightarrow> \<not> is_FindK k)
           \<longrightarrow> P (dispatch i c k s))
    \<and> (\<forall>s p. P s \<longrightarrow> P (s\<lparr>pending := map_delete p (pending s)\<rparr>)))"

text \<open>
  Params without a query object: not an object themselves, or with a \<^verbatim>\<open>query\<close> that
  is missing, \<^verbatim>\<open>null\<close> or primitive.
  The filter that \<^verbatim>\<open>OptionsService.find\<close> sets, a payload without documents flagged
  internal, and a store that honours the filter: it answers a find whose query carries
  \<^verbatim>\<open>internal: {$ne: true}\<close> with documents that are not flagged internal, or rejects it.
  \<open>honest_run\<close>: every settling of a call of the Options store in the run is such an
  answer.
\<close>

definition lacks_query :: "jsval \<Rightarrow> bool" where
  "lacks_query params = (case params of
       JObj ps \<Rightarrow> (case map_of ps ''query'' of
                     None \<Rightarrow> True
                   | Some v \<Rightarrow> v = JNull \<or> \<not> typeof_object v)
     | _ \<Rightarrow> True)"

definition has_filter :: "jsval \<Rightarrow> bool" where
  "has_filter params = (path [''query'', ''internal''] params = ne_true)"

definition internal_free :: "jsval \<Rightarrow> bool" where
  "internal_free v = (case v of
       JArr ds \<Rightarrow> list_all (\<lambda>d. get_prop ''internal'' d \<noteq> JBool True) ds
     | _ \<Rightarrow> True)"

definition hides_internal :: "envelope \<Rightarrow> bool" where
  "hides_internal e = (case payload e of Some v \<Rightarrow> internal_free v | None \<Rightarrow> True)"

definition honest :: "storecall \<Rightarrow> outcome \<Rightarrow> bool" where
  "honest c out = (case c of
       SFind q \<Rightarrow> (case out of Resolved v \<Rightarrow> has_filter q \<longrightarrow> internal_free v
                              | Rejected msg \<Rightarrow> True)
     | _ \<Rightarrow> True)"

definition honest_at :: "system \<Rightarrow> event \<Rightarrow> bool" where
  "honest_at s ev = (case ev of
       Settle now p out \<Rightarrow> (case map_of (pending s) p of
                               Some (i, c, k) \<Rightarrow> i = Opts \<longrightarrow> honest c out
                             | None \<Rightarrow> True)
     | _ \<Rightarrow> True)"

fun honest_run :: "builtins \<Rightarrow> event list \<Rightarrow> system \<Rightarrow> bool" where
  "honest_run B [] s = True"
| "honest_run B (ev # evs) s = (honest_at s ev \<and> honest_run B evs (step B ev s))"

definition filtered :: "system \<Rightarrow> bool" where
  "filtered s =
     (list_all (\<lambda>ic. fst ic = Opts \<longrightarrow> (case snd ic of SFind q \<Rightarrow> has_filter q | _ \<Rightarrow> True))
        (dispatched s)
    \<and> list_all (\<lambda>t. case t of (p, i, c, k) \<Rightarrow>
                  (i = Opts \<longrightarrow> (case c of SFind q \<Rightarrow> has_filter q | _ \<Rightarrow> True))
                  \<and> (is_FindK k \<longrightarrow> (case c of SFind q \<Rightarrow> True | _ \<Rightarrow> False)))
        (pending s)
    \<and> list_all (\<lambda>ke. hides_internal (snd ke)) (cachedFind (opts s)))"



section \<open>Properties\<close>

subsection \<open>How the primitives act on the state\<close>

lemma finish_eq: "finish aw e s = s\<lparr>delivered := delivered s @ deliveries aw e\<rparr>"
  by (induction aw arbitrary: e s) simp_all

lemma the_service_simps [simp]:
  "the_service s Docs = docs s" "the_service s Opts = opts s"
  by (simp_all add: the_service_def)

lemma dispatch_fields [simp]:
  "docs (dispatch i c k s) = docs s" "opts (dispatch i c k s) = opts s"
  "delivered (dispatch i c k s) = delivered s" "raised (dispatch i c k s) = raised s"
  "incremental (dispatch i c k s) = incremental s" "cacheable (dispatch i c k s) = cacheable s"
  "pending (dispatch i c k s) = pending s @ [(nextp s, i, c, k)]"
  "nextp (dispatch i c k s) = Suc (nextp s)"
  "dispatched (dispatch i c k s) = dispatched s @ [(i, c)]"
  by (simp_all add: dispatch_def)

lemma on_service_fields [simp]:
  "docs (on_service i f s) = (if i = Docs then f (docs s) else docs s)"
  "opts (on_service i f s) = (if i = Opts then f (opts s) else opts s)"
  "delivered (on_service i f s) = delivered s" "raised (on_service i f s) = raised s"
  "incremental (on_service i f s) = incremental s" "cacheable (on_service i f s) = cacheable s"
  "pending (on_service i f s) = pending s" "nextp (on_service i f s) = nextp s"
  "dispatched (on_service i f s) = dispatched s"
  by (cases i; simp add: on_service_def)+

lemma flags_kept [simp]:
  "is_cacheable (s\<lparr>delivered := d\<rparr>) i = is_cacheable s i"
  "is_cacheable (s\<lparr>pending := q\<rparr>) i = is_cacheable s i"
  "is_cacheable (dispatch j c k s) i = is_cacheable s i"
  "is_cacheable (on_service j f s) i = is_cacheable s i"
  "is_incremental (s\<lparr>delivered := d\<rparr>) i = is_incremental s i"
  "is_incremental (s\<lparr>pending := q\<rparr>) i = is_incremental s i"
  "is_incremental (dispatch j c k s) i = is_incremental s i"
  "is_incremental (on_service j f s) i = is_incremental s i"
  by (cases i; simp add: is_cacheable_def is_incremental_def)+

lemma well_formed_formatData [simp]: "well_formed (formatData out)"
  by (cases out) (simp_all add: formatData_def well_formed_def)

lemma resultCode_formatData [simp]:
  "resultCode (formatData (Rejected msg)) = Error"
  "resultCode (formatData (Resolved v)) = OK"
  by (simp_all add: formatData_def)

lemma well_formed_deliveries:
  "well_formed e \<Longrightarrow> list_all (\<lambda>ce. well_formed (snd ce)) (deliveries aw e)"
  by (induction aw arbitrary: e) simp_all

lemma map_of_map_set: "map_of (map_set k v m) k' = (if k' = k then Some v else map_of m k')"
  by (induction m) auto

declare finish.simps [simp del]

subsection \<open>Envelopes stay well formed\<close>

lemma envelopes_ok_finish: "envelopes_ok s \<Longrightarrow> well_formed e \<Longrightarrow> envelopes_ok (finish aw e s)"
  by (simp add: envelopes_ok_def finish_eq well_formed_deliveries)

lemma envelopes_ok_dispatch [simp]: "envelopes_ok (dispatch i c k s) = envelopes_ok s"
  by (simp add: envelopes_ok_def)

lemma envelopes_ok_pending [simp]: "envelopes_ok (s\<lparr>pending := q\<rparr>) = envelopes_ok s"
  by (simp add: envelopes_ok_def)

lemma envelopes_ok_on_service:
  "envelopes_ok s \<Longrightarrow> (service_ok (the_service s i) \<Longrightarrow> service_ok (f (the_service s i)))
     \<Longrightarrow> envelopes_ok (on_service i f s)"
  by (cases i) (simp_all add: envelopes_ok_def)

lemma service_ok_the_service: "envelopes_ok s \<Longrightarrow> service_ok (the_service s i)"
  by (cases i) (simp_all add: envelopes_ok_def)

lemma cache_ok_map_set:
  "cache_ok m \<Longrightarrow> well_formed e \<Longrightarrow> resultCode e = OK \<Longrightarrow> cache_ok (map_set k e m)"
  by (induction m) (auto simp: cache_ok_def)

lemma cache_ok_lookup:
  "cache_ok m \<Longrightarrow> map_of m k = Some e \<Longrightarrow> well_formed e \<and> resultCode e = OK"
  by (induction m) (auto simp: cache_ok_def split: if_splits)

lemma service_ok_clearCache [simp]: "service_ok (clearCache v)"
  by (simp add: service_ok_def clearCache_def cache_ok_def)

lemma service_ok_other_fields [simp]:
  "service_ok (v\<lparr>isCreationInProcess := b\<rparr>) = service_ok v"
  "service_ok (v\<lparr>creationQueue := q\<rparr>) = service_ok v"
  by (simp_all add: service_ok_def)

lemma envelopes_ok_base_find: "envelopes_ok s \<Longrightarrow> envelopes_ok (base_find B i params aw s)"
  using service_ok_the_service [of s i]
  by (auto simp: base_find_def Let_def service_ok_def split: option.splits if_splits
           intro!: envelopes_ok_finish dest: cache_ok_lookup)

lemma envelopes_ok_find_cont: "envelopes_ok s \<Longrightarrow> envelopes_ok (find_cont i key aw out s)"
  by (auto simp: find_cont_def Let_def service_ok_def
           intro!: envelopes_ok_finish envelopes_ok_on_service cache_ok_map_set)

lemma envelopes_ok_base_get:
  "envelopes_ok s \<Longrightarrow> base_get B i ident params w s = (r, s') \<Longrightarrow>
     envelopes_ok s' \<and> (\<forall>e. r = Some e \<longrightarrow> well_formed e)"
  using service_ok_the_service [of s i]
  by (auto simp: base_get_def Let_def service_ok_def split: option.splits if_splits
           dest: cache_ok_lookup)

lemma envelopes_ok_createNormal [simp]:
  "envelopes_ok (createNormal i data params aw s) = envelopes_ok s"
  by (simp add: createNormal_def)

lemma envelopes_ok_base_create:
  assumes "envelopes_ok s" and "\<And>d p a t. envelopes_ok t \<Longrightarrow> envelopes_ok (go d p a t)"
  shows "envelopes_ok (base_create B go i now data params aw s)"
  using assms by (simp add: base_create_def Let_def envelopes_ok_on_service)

lemma envelopes_ok_mutations [simp]:
  "envelopes_ok (base_update i now ident data params aw s) = envelopes_ok s"
  "envelopes_ok (base_patch i ident d params aw s) = envelopes_ok s"
  "envelopes_ok (base_remove i ident params aw s) = envelopes_ok s"
  by (simp_all add: base_update_def base_patch_def base_remove_def)

lemma envelopes_ok_mutation_cont: "envelopes_ok s \<Longrightarrow> envelopes_ok (mutation_cont i aw out s)"
  by (simp add: mutation_cont_def envelopes_ok_finish envelopes_ok_on_service)

lemma envelopes_ok_options_find:
  "envelopes_ok s \<Longrightarrow> options_find B params aw s = Inr s' \<Longrightarrow> envelopes_ok s'"
  by (auto simp: options_find_def envelopes_ok_base_find split: sum.splits)

lemma envelopes_ok_options_create:
  "envelopes_ok s \<Longrightarrow> options_create B now data params aw s = Inr s' \<Longrightarrow> envelopes_ok s'"
  by (auto simp: options_create_def split: if_splits intro!: envelopes_ok_base_create)

lemma envelopes_ok_createIncremental_cont:
  "envelopes_ok s \<Longrightarrow> envelopes_ok (createIncremental_cont B now data params aw e s)"
  by (auto simp: createIncremental_cont_def Let_def split: sum.splits
           intro!: envelopes_ok_finish dest: envelopes_ok_options_create)

lemma envelopes_ok_createIncremental:
  "envelopes_ok s \<Longrightarrow> envelopes_ok (createIncremental B now data params aw s)"
  by (auto simp: createIncremental_def split: prod.splits option.splits
           dest: envelopes_ok_base_get intro!: envelopes_ok_createIncremental_cont)

lemma envelopes_ok_create:
  "envelopes_ok s \<Longrightarrow> create B i now data params aw s = Inr s' \<Longrightarrow> envelopes_ok s'"
  by (cases i)
     (auto simp: create_def dest: envelopes_ok_options_create
           intro!: envelopes_ok_base_create envelopes_ok_createIncremental)

lemma envelopes_ok_get_cont: "envelopes_ok s \<Longrightarrow> envelopes_ok (get_cont B now i key w out s)"
  by (auto simp: get_cont_def Let_def service_ok_def split: getter.splits
           intro!: envelopes_ok_finish envelopes_ok_on_service cache_ok_map_set
                   envelopes_ok_createIncremental_cont)

lemma envelopes_ok_createNormal_cont:
  assumes "envelopes_ok s"
  shows "envelopes_ok (createNormal_cont B now i aw out s)"
proof (cases out)
  case (Rejected msg)
  with assms show ?thesis
    by (simp add: createNormal_cont_def envelopes_ok_finish)
next
  case (Resolved result)
  let ?s1 = "on_service i (\<lambda>v. (clearCache v)\<lparr>isCreationInProcess := False\<rparr>) s"
  have s1: "envelopes_ok ?s1"
    using assms by (simp add: envelopes_ok_on_service)
  then have s2: "envelopes_ok (on_service i (\<lambda>v. v\<lparr>creationQueue := q v\<rparr>) ?s1)" for q
    by (simp add: envelopes_ok_on_service)
  show ?thesis
    using Resolved s1 s2
    by (auto simp: createNormal_cont_def Let_def split: list.splits sum.splits
             intro!: envelopes_ok_finish dest: envelopes_ok_create [rotated])
qed

lemma envelopes_ok_throw:
  "envelopes_ok s \<Longrightarrow> (\<And>s'. r = Inr s' \<Longrightarrow> envelopes_ok s') \<Longrightarrow> envelopes_ok (throw c r s)"
  by (cases r) (simp_all add: throw_def envelopes_ok_def)

lemma envelopes_ok_call: "envelopes_ok s \<Longrightarrow> envelopes_ok (call B now i c r s)"
proof (cases r)
  case (Find params)
  assume "envelopes_ok s"
  then show ?thesis using Find
    by (cases i)
       (auto simp: call_def
             intro!: envelopes_ok_base_find envelopes_ok_throw dest: envelopes_ok_options_find)
next
  case (Get ident params)
  assume "envelopes_ok s"
  then show ?thesis using Get
    by (auto simp: call_def split: prod.splits option.splits
             dest: envelopes_ok_base_get intro!: envelopes_ok_finish)
next
  case (Create data params)
  assume "envelopes_ok s"
  then show ?thesis using Create
    by (auto simp: call_def intro!: envelopes_ok_throw dest: envelopes_ok_create)
qed (simp_all add: call_def)

lemma envelopes_ok_settle: "envelopes_ok s \<Longrightarrow> envelopes_ok (settle B now p out s)"
  by (auto simp: settle_def Let_def split: option.splits cont.splits
           intro!: envelopes_ok_find_cont envelopes_ok_get_cont envelopes_ok_createNormal_cont
                   envelopes_ok_mutation_cont)

lemma envelopes_ok_reject: "envelopes_ok s \<Longrightarrow> envelopes_ok (reject aw msg s)"
  by (cases aw) (simp_all add: envelopes_ok_finish, simp add: envelopes_ok_def)

lemma envelopes_ok_thrown: "envelopes_ok s \<Longrightarrow> envelopes_ok (thrown k msg s)"
  by (simp add: thrown_def envelopes_ok_reject envelopes_ok_finish
           split: cont.splits getter.splits)

lemma envelopes_ok_unwind: "envelopes_ok s \<Longrightarrow> envelopes_ok (unwind msg made s)"
  by (induction made arbitrary: s) (auto simp: envelopes_ok_thrown)

lemma envelopes_ok_step: "envelopes_ok s \<Longrightarrow> envelopes_ok (step B ev s)"
  by (cases ev)
     (simp_all add: envelopes_ok_call envelopes_ok_settle faulty_call_def Let_def
                    envelopes_ok_unwind)

lemma envelopes_ok_run: "envelopes_ok s \<Longrightarrow> envelopes_ok (run B evs s)"
  by (induction evs arbitrary: s) (simp_all add: envelopes_ok_step)

lemma envelopes_ok_init: "envelopes_ok (init inc cach)"
  by (simp add: envelopes_ok_def init_def new_service_def service_ok_def cache_ok_def)

subsection \<open>What is raised\<close>

lemma raised_finish [simp]: "raised (finish aw e s) = raised s"
  by (simp add: finish_eq)

lemma raised_base_find [simp]: "raised (base_find B i params aw s) = raised s"
  by (simp add: base_find_def Let_def split: option.splits)

lemma raised_find_cont [simp]: "raised (find_cont i key aw out s) = raised s"
  by (simp add: find_cont_def Let_def)

lemma raised_base_get: "base_get B i ident params w s = (r, s') \<Longrightarrow> raised s' = raised s"
  by (auto simp: base_get_def Let_def split: option.splits)

lemma raised_createNormal [simp]: "raised (createNormal i data params aw s) = raised s"
  by (simp add: createNormal_def)

lemma raised_base_create:
  "(\<And>d p a t. raised (go d p a t) = raised t) \<Longrightarrow>
     raised (base_create B go i now data params aw s) = raised s"
  by (simp add: base_create_def Let_def)

lemma raised_mutations [simp]:
  "raised (base_update i now ident data params aw s) = raised s"
  "raised (base_patch i ident d params aw s) = raised s"
  "raised (base_remove i ident params aw s) = raised s"
  "raised (mutation_cont i aw out s) = raised s"
  by (simp_all add: base_update_def base_patch_def base_remove_def mutation_cont_def)

lemma raised_options_create:
  "options_create B now data params aw s = Inr s' \<Longrightarrow> raised s' = raised s"
  by (auto simp: options_create_def raised_base_create split: if_splits)

lemma raised_createIncremental_cont [simp]:
  "raised (createIncremental_cont B now data params aw e s) = raised s"
  by (auto simp: createIncremental_cont_def Let_def split: sum.splits
           dest: raised_options_create)

lemma raised_createIncremental [simp]:
  "raised (createIncremental B now data params aw s) = raised s"
  by (auto simp: createIncremental_def split: prod.splits option.splits dest: raised_base_get)

lemma raised_create:
  "create B i now data params aw s = Inr s' \<Longrightarrow> raised s' = raised s"
  by (cases i) (auto simp: create_def raised_base_create dest: raised_options_create)

lemma raised_get_cont [simp]: "raised (get_cont B now i key w out s) = raised s"
  by (simp add: get_cont_def Let_def split: getter.splits)

lemma raised_createNormal_cont [simp]:
  "raised (createNormal_cont B now i aw out s) = raised s"
  by (auto simp: createNormal_cont_def Let_def split: outcome.splits list.splits sum.splits
           dest: raised_create)

lemma raised_settle [simp]: "raised (settle B now p out s) = raised s"
  by (simp add: settle_def Let_def split: option.splits cont.splits)

lemma raised_reject_client [simp]:
  "raised (reject (Client n) msg s) = raised s @ [(n, msg)]"
  "delivered (reject (Client n) msg s) = delivered s"
  "pending (reject (Client n) msg s) = pending s"
  by simp_all



subsection \<open>Stable properties\<close>

lemma stable_rules:
  assumes "stable P F C"
  shows "P (finish aw e s) = P s"
    and "P (s\<lparr>raised := r\<rparr>) = P s"
    and "P s \<Longrightarrow> (\<And>v. cachedFind (f v) = cachedFind v \<or> cachedFind (f v) = [])
           \<Longrightarrow> P (on_service i f s)"
    and "P s \<Longrightarrow> C i key e
           \<Longrightarrow> P (on_service i (\<lambda>v. v\<lparr>cachedFind := map_set key e (cachedFind v)\<rparr>) s)"
    and "P s \<Longrightarrow> (case c of SFind q \<Rightarrow> (case k of FindK key aw \<Rightarrow> F i q key | _ \<Rightarrow> False)
                         | _ \<Rightarrow> \<not> is_FindK k)
           \<Longrightarrow> P (dispatch i c k s)"
    and "P s \<Longrightarrow> P (s\<lparr>pending := map_delete p (pending s)\<rparr>)"
  using assms by (simp_all add: stable_def finish_eq)

lemma is_FindK_simps [simp]:
  "is_FindK (FindK key aw)" "\<not> is_FindK (GetK key w)" "\<not> is_FindK (CreateK aw)"
  "\<not> is_FindK (UpdateK aw)" "\<not> is_FindK (PatchK aw)" "\<not> is_FindK (RemoveK aw)"
  by (simp_all add: is_FindK_def)

lemma stable_base_find:
  assumes st: "stable P F C" and P: "P s"
      and F: "F i (find_params s i params) (stringify B (find_params s i params))"
  shows "P (base_find B i params aw s)"
  using P F
  by (simp add: base_find_def Let_def stable_rules(1,5) [OF st] split: option.splits)

lemma stable_find_cont:
  assumes st: "stable P F C" and P: "P s"
      and C: "resultCode (formatData out) = OK \<Longrightarrow> C i key (formatData out)"
  shows "P (find_cont i key aw out s)"
  using P C by (simp add: find_cont_def Let_def stable_rules(1,4) [OF st])

lemma stable_base_get:
  assumes st: "stable P F C" and P: "P s" and g: "base_get B i ident params w s = (r, s')"
  shows "P s'"
  using P g by (auto simp: base_get_def Let_def stable_rules(5) [OF st] split: option.splits)

lemma stable_createNormal:
  assumes st: "stable P F C" and P: "P s"
  shows "P (createNormal i data params aw s)"
  using P by (simp add: createNormal_def stable_rules(5) [OF st])

lemma stable_base_create:
  assumes st: "stable P F C" and P: "P s" and go: "\<And>d p a t. P t \<Longrightarrow> P (go d p a t)"
  shows "P (base_create B go i now data params aw s)"
  using P go by (simp add: base_create_def Let_def stable_rules(3) [OF st])

lemma stable_mutations:
  assumes st: "stable P F C" and P: "P s"
  shows "P (base_update i now ident data params aw s)"
    and "P (base_patch i ident d params aw s)"
    and "P (base_remove i ident params aw s)"
    and "P (mutation_cont i aw out s)"
  using P
  by (simp_all add: base_update_def base_patch_def base_remove_def mutation_cont_def
                    clearCache_def stable_rules(1,3,5) [OF st])

lemma stable_options_create:
  assumes st: "stable P F C" and P: "P s"
      and c: "options_create B now data params aw s = Inr s'"
  shows "P s'"
  using P c
  by (auto simp: options_create_def split: if_splits
           intro!: stable_base_create [OF st] stable_createNormal [OF st])

lemma stable_createIncremental_cont:
  assumes st: "stable P F C" and P: "P s"
  shows "P (createIncremental_cont B now data params aw e s)"
  using P
  by (auto simp: createIncremental_cont_def Let_def stable_rules(1) [OF st] split: sum.splits
           intro!: stable_createNormal [OF st] stable_mutations [OF st]
           dest: stable_options_create [OF st])

lemma stable_createIncremental:
  assumes st: "stable P F C" and P: "P s"
  shows "P (createIncremental B now data params aw s)"
  using P
  by (auto simp: createIncremental_def split: prod.splits option.splits
           dest: stable_base_get [OF st] intro!: stable_createIncremental_cont [OF st])

lemma stable_create:
  assumes st: "stable P F C" and P: "P s" and c: "create B i now data params aw s = Inr s'"
  shows "P s'"
  using P c
  by (cases i)
     (auto simp: create_def dest: stable_options_create [OF st]
           intro!: stable_base_create [OF st] stable_createIncremental [OF st]
                   stable_createNormal [OF st])

lemma stable_get_cont:
  assumes st: "stable P F C" and P: "P s"
  shows "P (get_cont B now i key w out s)"
proof -
  have "P (on_service i (\<lambda>v. v\<lparr>cachedGet := g v\<rparr>) s)" for g
    using P by (simp add: stable_rules(3) [OF st])
  with P show ?thesis
    by (auto simp: get_cont_def Let_def stable_rules(1) [OF st] split: getter.splits
             intro!: stable_createIncremental_cont [OF st])
qed

lemma stable_createNormal_cont:
  assumes st: "stable P F C" and P: "P s"
  shows "P (createNormal_cont B now i aw out s)"
proof (cases out)
  case (Rejected msg)
  with P show ?thesis
    by (simp add: createNormal_cont_def stable_rules(1) [OF st])
next
  case (Resolved result)
  let ?s1 = "on_service i (\<lambda>v. (clearCache v)\<lparr>isCreationInProcess := False\<rparr>) s"
  have s1: "P ?s1"
    using P by (simp add: stable_rules(3) [OF st] clearCache_def)
  then have s2: "P (on_service i (\<lambda>v. v\<lparr>creationQueue := q v\<rparr>) ?s1)" for q
    by (simp add: stable_rules(3) [OF st])
  show ?thesis
    using Resolved s1 s2
    by (auto simp: createNormal_cont_def Let_def stable_rules(1) [OF st]
             split: list.splits sum.splits dest: stable_create [OF st, rotated])
qed

lemma stable_call:
  assumes st: "stable P F C" and P: "P s"
      and docs: "\<And>q. F Docs q (stringify B q)"
      and opts: "\<And>params params'. options_query params = Inr params'
                   \<Longrightarrow> F Opts params' (stringify B params')"
  shows "P (call B now i c r s)"
proof (cases r)
  case (Find params)
  show ?thesis
  proof (cases i)
    case Docs
    with Find P docs show ?thesis
      by (simp add: call_def stable_base_find [OF st])
  next
    case Opts
    have np: "find_params s Opts q = q" for q
      by (simp add: find_params_def is_incremental_def)
    from Opts Find P opts show ?thesis
      by (auto simp: call_def throw_def options_find_def np stable_rules(2) [OF st]
               split: sum.splits intro!: stable_base_find [OF st])
  qed
next
  case (Get ident params)
  with P show ?thesis
    by (auto simp: call_def stable_rules(1) [OF st] split: prod.splits option.splits
             dest: stable_base_get [OF st])
next
  case (Create data params)
  with P show ?thesis
    by (auto simp: call_def throw_def stable_rules(2) [OF st] split: sum.splits
             dest: stable_create [OF st])
qed (use P in \<open>simp_all add: call_def stable_mutations [OF st]\<close>)

lemma stable_settle:
  assumes st: "stable P F C" and P: "P s"
      and C: "\<And>i c key aw. map_of (pending s) p = Some (i, c, FindK key aw) \<Longrightarrow>
                resultCode (formatData out) = OK \<Longrightarrow> C i key (formatData out)"
  shows "P (settle B now p out s)"
proof -
  have "P (s\<lparr>pending := map_delete p (pending s)\<rparr>)"
    using P by (rule stable_rules(6) [OF st])
  with C P show ?thesis
    by (auto simp: settle_def Let_def split: option.splits cont.splits
             intro!: stable_find_cont [OF st] stable_get_cont [OF st]
                     stable_createNormal_cont [OF st] stable_mutations [OF st])
qed

lemma stable_reject:
  assumes st: "stable P F C"
  shows "P (reject aw msg s) = P s"
  by (cases aw) (simp_all add: stable_rules(1,2) [OF st])

lemma stable_thrown:
  assumes st: "stable P F C"
  shows "P (thrown k msg s) = P s"
  by (simp add: thrown_def stable_reject [OF st] stable_rules(1) [OF st]
           split: cont.splits getter.splits)

lemma stable_unwind:
  assumes st: "stable P F C"
  shows "P s \<Longrightarrow> P (unwind msg made s)"
  by (induction made arbitrary: s)
     (auto simp: stable_thrown [OF st] stable_rules(6) [OF st])

lemma stable_faulty_call:
  assumes st: "stable P F C" and P: "P s"
      and docs: "\<And>q. F Docs q (stringify B q)"
      and opts: "\<And>params params'. options_query params = Inr params'
                   \<Longrightarrow> F Opts params' (stringify B params')"
  shows "P (faulty_call B now i c r msg s)"
  using stable_call [OF st P docs opts]
  by (simp add: faulty_call_def Let_def stable_unwind [OF st])

lemma stable_run:
  assumes "stable P F C" and "P s" and "\<And>q. F Docs q (stringify B q)"
      and "\<And>params params'. options_query params = Inr params'
             \<Longrightarrow> F Opts params' (stringify B params')"
      and "\<And>i key e. C i key e"
  shows "P (run B evs s)"
  using assms(2)
proof (induction evs arbitrary: s)
  case Nil
  then show ?case by simp
next
  case (Cons ev evs)
  have "P (step B ev s)"
    using assms(1,3,4,5) Cons.prems
    by (cases ev) (simp_all add: stable_call stable_settle stable_faulty_call)
  then show ?case
    by (simp add: Cons.IH)
qed

lemma stable_fresh: "stable fresh (\<lambda>i q key. True) (\<lambda>i key e. True)"
  by (auto simp: stable_def fresh_def list_all_iff map_delete_def)

lemma fresh_run: "fresh (run B evs (init inc cach))"
  by (rule stable_run [OF stable_fresh]) (simp_all add: fresh_def init_def)

lemma stable_flags:
  "stable (\<lambda>s. incremental s = a \<and> cacheable s = b) (\<lambda>i q key. True) (\<lambda>i key e. True)"
  by (simp add: stable_def)

lemma flags_run:
  "incremental (run B evs (init inc cach)) = inc \<and> cacheable (run B evs (init inc cach)) = cach"
  by (rule stable_run [OF stable_flags]) (simp_all add: init_def)

lemma fresh_lookup_new: "fresh s \<Longrightarrow> map_of (pending s @ [(nextp s, x)]) (nextp s) = Some x"
  by (auto simp: fresh_def list_all_iff map_add_def split: option.splits
           dest!: map_of_SomeD)

lemma fresh_delete_new:
  "fresh s \<Longrightarrow> map_delete (nextp s) (pending s @ [(nextp s, x)]) = pending s"
  by (auto simp: fresh_def list_all_iff map_delete_def filter_id_conv)

subsection \<open>Store calls that are answered and store calls that throw\<close>

lemma fresh_filter_new:
  "fresh s \<Longrightarrow> filter (\<lambda>t. nextp s \<le> fst t) (pending s @ [(nextp s, x)]) = [(nextp s, x)]"
  by (auto simp: fresh_def list_all_iff filter_empty_conv)

lemma faulty_one:
  assumes fr: "fresh s" and p: "pending s0 = pending s" and n: "nextp s0 = nextp s"
      and c: "call B now i c r s = dispatch j sc k s0"
  shows "step B (Faulty now i c r msg) s = thrown k msg ((dispatch j sc k s0)\<lparr>pending := pending s\<rparr>)"
proof -
  have "filter (\<lambda>t. nextp s \<le> fst t) (pending s @ [(nextp s, j, sc, k)]) = [(nextp s, j, sc, k)]"
    using fr by (rule fresh_filter_new)
  moreover have "map_delete (nextp s) (pending s @ [(nextp s, j, sc, k)]) = pending s"
    using fr by (rule fresh_delete_new)
  ultimately show ?thesis
    by (simp add: faulty_call_def c p n)
qed


lemma settle_insert:
  assumes "map_of (pending s) p = Some (i, sc, CreateK aw)"
  shows "delivered (step B (Settle t p (Rejected msg)) s)
           = delivered s @ deliveries aw (formatData (Rejected msg))"
    and "creationQueue (the_service s i) = [] \<Longrightarrow>
         delivered (step B (Settle t p (Resolved v)) s)
           = delivered s @ deliveries aw (formatData (Resolved v))"
  using assms
  by (cases i; simp add: settle_def createNormal_cont_def finish_eq Let_def clearCache_def)+



subsection \<open>C1: every answer is a well-formed envelope\<close>





subsection \<open>C7: a find answered from the cache\<close>

lemma find_hit:
  assumes "cacheable s"
      and "map_of (cachedFind (docs s)) (stringify B (find_params s Docs params)) = Some e"
  shows "step B (Call t Docs a (Find params)) s = s\<lparr>delivered := delivered s @ [(a, e)]\<rparr>"
  using assms by (simp add: call_def base_find_def Let_def is_cacheable_def finish_eq)

lemma find_miss:
  assumes "map_of (cachedFind (docs s)) (stringify B (find_params s Docs params)) = None"
  shows "step B (Call t Docs a (Find params)) s
           = dispatch Docs (SFind (find_params s Docs params))
               (FindK (stringify B (find_params s Docs params)) (Client a)) s"
  using assms by (simp add: call_def base_find_def Let_def)

lemma find_settle:
  assumes "fresh s" and "cacheable s"
  shows "step B (Settle t (nextp s) (Resolved v)) (dispatch Docs c (FindK key (Client a)) s)
           = on_service Docs (\<lambda>u. u\<lparr>cachedFind := map_set key (formatData (Resolved v)) (cachedFind u)\<rparr>)
               (s\<lparr>nextp := Suc (nextp s), dispatched := dispatched s @ [(Docs, c)],
                  delivered := delivered s @ [(a, formatData (Resolved v))]\<rparr>)"
proof -
  let ?s1 = "dispatch Docs c (FindK key (Client a)) s"
  have "map_of (pending ?s1) (nextp s) = Some (Docs, c, FindK key (Client a))"
    using assms(1) by (simp add: fresh_lookup_new del: map_of_append)
  moreover have "map_delete (nextp s) (pending ?s1) = pending s"
    using assms(1) by (simp add: fresh_delete_new)
  ultimately show ?thesis
    using assms(2)
    by (simp add: settle_def find_cont_def is_cacheable_def finish_eq Let_def
                  on_service_def dispatch_def)
qed

text \<open>
  C7, on a cacheable service in any state \<open>s\<close> that a run can reach. Every envelope in
  a cache (of either service) is an \<^verbatim>\<open>OK\<close> one. Let \<open>params\<close> and \<open>params'\<close> have the
  same key (the serialisation of what lines 108-112 make of them), and let no mutation
  come between the two finds. If the cache holds an envelope \<open>e\<close> under that key, find
  with \<open>params\<close> delivers \<open>e\<close>, which is \<^verbatim>\<open>OK\<close>, and find with \<open>params'\<close> delivers
  \<open>e\<close> again, changing nothing but the log of answers. If it holds none, the first find
  goes to the store; once the store resolves it with \<open>v\<close>, the caller gets
  \<^verbatim>\<open>{resultCode: 'OK', payload: v}\<close>, and the second find delivers that same envelope
  and changes nothing else: no store call is added.
\<close>

theorem cached_find_is_repeated:
  "(let s = run B evs (init inc True);
        key = stringify B (find_params s Docs params)
    in list_all (\<lambda>kv. resultCode (snd kv) = OK)
         (cachedFind (docs s) @ cachedGet (docs s) @ cachedFind (opts s) @ cachedGet (opts s))
     \<and> (stringify B (find_params s Docs params') = key \<longrightarrow>
         (case map_of (cachedFind (docs s)) key of
            Some e \<Rightarrow>
              (let s1 = step B (Call t1 Docs a (Find params)) s
               in resultCode e = OK
                \<and> s1 = s\<lparr>delivered := delivered s @ [(a, e)]\<rparr>
                \<and> step B (Call t2 Docs b (Find params')) s1
                    = s1\<lparr>delivered := delivered s1 @ [(b, e)]\<rparr>)
          | None \<Rightarrow>
              (let s1 = step B (Call t1 Docs a (Find params)) s;
                   s2 = step B (Settle t2 (nextp s) (Resolved v)) s1
               in dispatched s2 = dispatched s @ [(Docs, SFind (find_params s Docs params))]
                \<and> delivered s2 = delivered s @ [(a, formatData (Resolved v))]
                \<and> step B (Call t3 Docs b (Find params')) s2
                    = s2\<lparr>delivered := delivered s2 @ [(b, formatData (Resolved v))]\<rparr>))))"
proof -
  define s where "s = run B evs (init inc True)"
  define key where "key = stringify B (find_params s Docs params)"
  have ok: "envelopes_ok s"
    unfolding s_def by (rule envelopes_ok_run) (rule envelopes_ok_init)
  have fr: "fresh s"
    unfolding s_def by (rule fresh_run)
  have ca: "cacheable s"
    unfolding s_def using flags_run [of B evs inc True] by simp
  have caches: "list_all (\<lambda>kv. resultCode (snd kv) = OK)
         (cachedFind (docs s) @ cachedGet (docs s) @ cachedFind (opts s) @ cachedGet (opts s))"
    using ok by (auto simp: envelopes_ok_def service_ok_def cache_ok_def list_all_iff)
  have twice: "(case map_of (cachedFind (docs s)) key of
            Some e \<Rightarrow>
              (let s1 = step B (Call t1 Docs a (Find params)) s
               in resultCode e = OK
                \<and> s1 = s\<lparr>delivered := delivered s @ [(a, e)]\<rparr>
                \<and> step B (Call t2 Docs b (Find params')) s1
                    = s1\<lparr>delivered := delivered s1 @ [(b, e)]\<rparr>)
          | None \<Rightarrow>
              (let s1 = step B (Call t1 Docs a (Find params)) s;
                   s2 = step B (Settle t2 (nextp s) (Resolved v)) s1
               in dispatched s2 = dispatched s @ [(Docs, SFind (find_params s Docs params))]
                \<and> delivered s2 = delivered s @ [(a, formatData (Resolved v))]
                \<and> step B (Call t3 Docs b (Find params')) s2
                    = s2\<lparr>delivered := delivered s2 @ [(b, formatData (Resolved v))]\<rparr>))"
    if same: "stringify B (find_params s Docs params') = key"
  proof (cases "map_of (cachedFind (docs s)) key")
    case None
    let ?p = "find_params s Docs params"
    let ?s1 = "dispatch Docs (SFind ?p) (FindK key (Client a)) s"
    let ?s2 = "on_service Docs (\<lambda>u. u\<lparr>cachedFind := map_set key (formatData (Resolved v)) (cachedFind u)\<rparr>)
               (s\<lparr>nextp := Suc (nextp s), dispatched := dispatched s @ [(Docs, SFind ?p)],
                  delivered := delivered s @ [(a, formatData (Resolved v))]\<rparr>)"
    have s1: "step B (Call t1 Docs a (Find params)) s = ?s1"
      using None by (simp only: key_def find_miss)
    have s2: "step B (Settle t2 (nextp s) (Resolved v)) ?s1 = ?s2"
      using fr ca by (rule find_settle)
    have fp: "find_params ?s2 Docs params' = find_params s Docs params'"
      by (simp add: find_params_def is_incremental_def)
    have hit: "step B (Call t3 Docs b (Find params')) ?s2
                 = ?s2\<lparr>delivered := delivered ?s2 @ [(b, formatData (Resolved v))]\<rparr>"
      using ca by (intro find_hit) (simp_all add: fp same map_of_map_set)
    show ?thesis
      using None hit by (simp add: s1 s2 Let_def del: step.simps)
  next
    case (Some e)
    let ?s1 = "s\<lparr>delivered := delivered s @ [(a, e)]\<rparr>"
    have e: "resultCode e = OK"
      using ok Some cache_ok_lookup [of "cachedFind (docs s)" key e]
      by (simp add: envelopes_ok_def service_ok_def)
    have s1: "step B (Call t1 Docs a (Find params)) s = ?s1"
      using ca Some by (simp only: key_def find_hit)
    have fp: "find_params ?s1 Docs params' = find_params s Docs params'"
      by (simp add: find_params_def is_incremental_def)
    have hit: "step B (Call t2 Docs b (Find params')) ?s1
                 = ?s1\<lparr>delivered := delivered ?s1 @ [(b, e)]\<rparr>"
      using ca by (intro find_hit) (simp_all add: fp same Some)
    show ?thesis
      using Some e hit by (simp add: s1 Let_def del: step.simps)
  qed
  show ?thesis
    using caches twice by (simp add: Let_def s_def [symmetric] key_def [symmetric] del: step.simps)
qed


theorem cached_find_is_repeated_witness:
  "stringify js (find_params (run js [] (init False True)) Docs (JObj [])) = ''{}''
   \<and> map_of (cachedFind (docs (run js [] (init False True)))) ''{}'' = None
   \<and> delivered (step js (Settle 1 0 (Resolved (JArr [])))
                  (step js (Call 0 Docs 1 (Find (JObj []))) (init False True)))
       = [(1, formatData (Resolved (JArr [])))]
   \<and> dispatched (step js (Settle 1 0 (Resolved (JArr [])))
                  (step js (Call 0 Docs 1 (Find (JObj []))) (init False True)))
       = [(Docs, SFind (JObj []))]
   \<and> step js (Call 2 Docs 2 (Find (JObj [])))
         (step js (Settle 1 0 (Resolved (JArr [])))
            (step js (Call 0 Docs 1 (Find (JObj []))) (init False True)))
       = (step js (Settle 1 0 (Resolved (JArr [])))
            (step js (Call 0 Docs 1 (Find (JObj []))) (init False True)))
          \<lparr>delivered := [(1, formatData (Resolved (JArr []))),
                         (2, formatData (Resolved (JArr [])))]\<rparr>"
proof -
  have k: "stringify js (find_params (init False True) Docs (JObj [])) = ''{}''"
    by code_simp
  have n: "map_of (cachedFind (docs (init False True))) ''{}'' = None"
    by code_simp
  have f: "find_params (init False True) Docs (JObj []) = JObj []"
    by code_simp
  have z: "nextp (init False True) = 0" "dispatched (init False True) = []"
    "delivered (init False True) = []"
    by (simp_all add: init_def)
  show ?thesis
    using cached_find_is_repeated
            [where B = js and evs = "[]" and inc = False and params = "JObj []"
               and params' = "JObj []" and ?t1.0 = 0 and a = 1 and ?t2.0 = 1
               and v = "JArr []" and ?t3.0 = 2 and b = 2]
          k n
    by (simp add: Let_def f z del: step.simps)
qed


subsection \<open>C8: the default sort\<close>







subsection \<open>C10: the filter of \<^verbatim>\<open>OptionsService.find\<close>\<close>

lemma list_all_map_set:
  "list_all (\<lambda>ke. Q (snd ke)) m \<Longrightarrow> Q e \<Longrightarrow> list_all (\<lambda>ke. Q (snd ke)) (map_set k e m)"
  by (induction m) auto

lemma stable_filtered:
  "stable filtered (\<lambda>i q key. i = Opts \<longrightarrow> has_filter q)
     (\<lambda>i key e. i = Opts \<longrightarrow> hides_internal e)"
  unfolding stable_def
proof (intro conjI allI impI)
  fix s :: system and i and f :: "service \<Rightarrow> service"
  assume a: "filtered s" and f: "\<forall>v. cachedFind (f v) = cachedFind v \<or> cachedFind (f v) = []"
  have "cachedFind (f (opts s)) = cachedFind (opts s) \<or> cachedFind (f (opts s)) = []"
    using f by simp
  with a show "filtered (on_service i f s)"
    by (cases i) (auto simp: filtered_def)
next
  fix s i key e
  assume "filtered s" and "i = Opts \<longrightarrow> hides_internal e"
  then show "filtered (on_service i (\<lambda>v. v\<lparr>cachedFind := map_set key e (cachedFind v)\<rparr>) s)"
    by (cases i) (auto simp: filtered_def intro: list_all_map_set)
next
  fix s i c k
  assume "filtered s"
     and "case c of SFind q \<Rightarrow> (case k of FindK key aw \<Rightarrow> i = Opts \<longrightarrow> has_filter q | _ \<Rightarrow> False)
                  | _ \<Rightarrow> \<not> is_FindK k"
  then show "filtered (dispatch i c k s)"
    by (cases c; cases k) (auto simp: filtered_def)
next
  fix s p
  assume "filtered s"
  then show "filtered (s\<lparr>pending := map_delete p (pending s)\<rparr>)"
    by (auto simp: filtered_def map_delete_def list_all_iff)
qed (simp_all add: filtered_def)

lemma path_query:
  "path [''query'', k] (JObj (map_set ''query'' (JObj q) ps))
     = (case map_of q k of Some x \<Rightarrow> x | None \<Rightarrow> JUndefined)"
  by (simp add: isNil_def get_prop_def map_of_map_set)

lemma options_query_Inr:
  "options_query params = Inr p' \<longleftrightarrow>
     (\<exists>ps q. params = JObj ps \<and> map_of ps ''query'' = Some (JObj q)
            \<and> p' = JObj (map_set ''query'' (JObj (map_set ''internal'' ne_true q)) ps))"
  by (auto simp: options_query_def split: jsval.splits option.splits)

lemma options_query_Inl:
  "options_query params = Inl err \<longleftrightarrow>
     (err = ''TypeError'' \<and> (\<forall>ps q. params = JObj ps \<longrightarrow> map_of ps ''query'' \<noteq> Some (JObj q)))"
  by (auto simp: options_query_def split: jsval.splits option.splits)

lemma options_query_filter: "options_query params = Inr p' \<Longrightarrow> has_filter p'"
  by (auto simp: options_query_Inr has_filter_def path_query map_of_map_set
           simp del: path.simps)

lemma honest_hides:
  "honest (SFind q) out \<Longrightarrow> has_filter q \<Longrightarrow> hides_internal (formatData out)"
  by (cases out) (simp_all add: honest_def hides_internal_def formatData_def)

lemma filtered_pending:
  assumes "filtered s" and "map_of (pending s) p = Some (i, c, k)"
  shows "(i = Opts \<longrightarrow> (case c of SFind q \<Rightarrow> has_filter q | _ \<Rightarrow> True))
       \<and> (is_FindK k \<longrightarrow> (case c of SFind q \<Rightarrow> True | _ \<Rightarrow> False))"
  using assms map_of_SomeD [of "pending s" p "(i, c, k)"]
  by (auto simp: filtered_def list_all_iff)

lemma filtered_step:
  assumes f: "filtered s" and h: "honest_at s ev"
  shows "filtered (step B ev s)"
proof (cases ev)
  case (Call now i c r)
  then show ?thesis
    using f by (simp add: stable_call [OF stable_filtered] options_query_filter)
next
  case (Settle now p out)
  have "i = Opts \<longrightarrow> hides_internal (formatData out)"
    if "map_of (pending s) p = Some (i, c, FindK key aw)" for i c key aw
    using filtered_pending [OF f that] h that Settle
    by (cases c) (auto simp: honest_at_def intro: honest_hides)
  then show ?thesis
    using f Settle by (simp add: stable_settle [OF stable_filtered])
next
  case (Faulty now i c r msg)
  then show ?thesis
    using f by (simp add: stable_faulty_call [OF stable_filtered] options_query_filter)
qed

lemma filtered_run: "filtered s \<Longrightarrow> honest_run B evs s \<Longrightarrow> filtered (run B evs s)"
  by (induction evs arbitrary: s) (simp_all add: filtered_step)

lemma filtered_init: "filtered (init inc cach)"
  by (simp add: filtered_def init_def new_service_def)

lemma options_find_hit:
  assumes "options_query params = Inr p'"
      and "map_of (cachedFind (opts s)) (stringify B p') = Some e"
  shows "step B (Call t Opts c (Find params)) s = s\<lparr>delivered := delivered s @ [(c, e)]\<rparr>"
  using assms
  by (simp add: call_def throw_def options_find_def base_find_def Let_def find_params_def
                is_incremental_def is_cacheable_def finish_eq)

lemma options_find_miss:
  assumes "options_query params = Inr p'"
      and "map_of (cachedFind (opts s)) (stringify B p') = None"
  shows "step B (Call t Opts c (Find params)) s
           = dispatch Opts (SFind p') (FindK (stringify B p') (Client c)) s"
  using assms
  by (simp add: call_def throw_def options_find_def base_find_def Let_def find_params_def
                is_incremental_def is_cacheable_def)

lemma settle_find:
  assumes "map_of (pending s) p = Some (i, cl, FindK key (Client c))"
  shows "delivered (step B (Settle t p out) s) = delivered s @ [(c, formatData out)]"
  using assms by (simp add: settle_def find_cont_def Let_def finish_eq)

text \<open>
  C10. A find on the Options service whose params have no \<^verbatim>\<open>query\<close> object
  (\<open>lacks_query\<close>) throws: a \<^verbatim>\<open>TypeError\<close> is raised to the caller and nothing else
  happens. A find whose params
  have one goes on, as \<^verbatim>\<open>BaseService.find\<close>, with params in which
  \<^verbatim>\<open>query.internal\<close> is \<^verbatim>\<open>{$ne: true}\<close>, whatever the caller had put there. So in
  every run every find that the Options store is given carries this filter
  (\<open>filtered\<close>). Whether documents flagged internal come back is then up to the store:
  if the store honours the filter (\<open>honest_run\<close>), the find cache of the Options service
  holds only envelopes without such documents (\<open>filtered\<close>), a find answered from the
  cache delivers one of these, and a find answered by the store delivers the store's
  answer, which has none.
\<close>

theorem options_find_hides_internal:
  "(lacks_query params \<longrightarrow>
      step B (Call t Opts c (Find params)) s = s\<lparr>raised := raised s @ [(c, ''TypeError'')]\<rparr>)
   \<and> (map_of ps ''query'' = Some (JObj q) \<longrightarrow>
       (let p' = JObj (map_set ''query'' (JObj (map_set ''internal'' ne_true q)) ps)
        in step B (Call t Opts c (Find (JObj ps))) s = base_find B Opts p' (Client c) s
         \<and> path [''query'', ''internal''] p' = ne_true
         \<and> (honest_run B evs (init inc cach) \<longrightarrow>
             (let r = run B evs (init inc cach)
              in filtered r
               \<and> (case map_of (cachedFind (opts r)) (stringify B p') of
                    Some e \<Rightarrow> step B (Call t Opts c (Find (JObj ps))) r
                                = r\<lparr>delivered := delivered r @ [(c, e)]\<rparr>
                              \<and> hides_internal e
                  | None \<Rightarrow> step B (Call t Opts c (Find (JObj ps))) r
                                = dispatch Opts (SFind p') (FindK (stringify B p') (Client c)) r)
               \<and> (map_of (pending r) p = Some (Opts, SFind p', FindK key (Client c))
                    \<and> honest (SFind p') out \<longrightarrow>
                  delivered (step B (Settle t' p out) r) = delivered r @ [(c, formatData out)]
                  \<and> hides_internal (formatData out))))))"
proof (intro conjI impI)
  assume "lacks_query params"
  then have "options_query params = Inl ''TypeError''"
    by (auto simp: options_query_Inl lacks_query_def typeof_object_def)
  then show "step B (Call t Opts c (Find params)) s = s\<lparr>raised := raised s @ [(c, ''TypeError'')]\<rparr>"
    by (simp add: call_def throw_def options_find_def)
next
  assume q: "map_of ps ''query'' = Some (JObj q)"
  define p' where "p' = JObj (map_set ''query'' (JObj (map_set ''internal'' ne_true q)) ps)"
  have oq: "options_query (JObj ps) = Inr p'"
    using q by (simp add: options_query_Inr p'_def)
  have flt: "has_filter p'"
    using oq by (rule options_query_filter)
  have 1: "step B (Call t Opts c (Find (JObj ps))) s = base_find B Opts p' (Client c) s"
    using oq by (simp add: call_def throw_def options_find_def)
  have 2: "path [''query'', ''internal''] p' = ne_true"
    using flt by (simp add: has_filter_def)
  have 3: "(let r = run B evs (init inc cach)
              in filtered r
               \<and> (case map_of (cachedFind (opts r)) (stringify B p') of
                    Some e \<Rightarrow> step B (Call t Opts c (Find (JObj ps))) r
                                = r\<lparr>delivered := delivered r @ [(c, e)]\<rparr>
                              \<and> hides_internal e
                  | None \<Rightarrow> step B (Call t Opts c (Find (JObj ps))) r
                                = dispatch Opts (SFind p') (FindK (stringify B p') (Client c)) r)
               \<and> (map_of (pending r) p = Some (Opts, SFind p', FindK key (Client c))
                    \<and> honest (SFind p') out \<longrightarrow>
                  delivered (step B (Settle t' p out) r) = delivered r @ [(c, formatData out)]
                  \<and> hides_internal (formatData out)))"
    if h: "honest_run B evs (init inc cach)"
  proof -
    define r where "r = run B evs (init inc cach)"
    have f: "filtered r"
      unfolding r_def using filtered_init h by (rule filtered_run)
    have a: "(case map_of (cachedFind (opts r)) (stringify B p') of
                    Some e \<Rightarrow> step B (Call t Opts c (Find (JObj ps))) r
                                = r\<lparr>delivered := delivered r @ [(c, e)]\<rparr>
                              \<and> hides_internal e
                  | None \<Rightarrow> step B (Call t Opts c (Find (JObj ps))) r
                                = dispatch Opts (SFind p') (FindK (stringify B p') (Client c)) r)"
    proof (cases "map_of (cachedFind (opts r)) (stringify B p')")
      case None
      then show ?thesis
        using options_find_miss [OF oq None] by (simp del: step.simps)
    next
      case (Some e)
      have "(stringify B p', e) \<in> set (cachedFind (opts r))"
        using Some by (rule map_of_SomeD)
      then have "hides_internal e"
        using f by (auto simp: filtered_def list_all_iff)
      then show ?thesis
        using options_find_hit [OF oq Some] Some by (simp del: step.simps)
    qed
    have b: "delivered (step B (Settle t' p out) r) = delivered r @ [(c, formatData out)]
                  \<and> hides_internal (formatData out)"
      if "map_of (pending r) p = Some (Opts, SFind p', FindK key (Client c))
            \<and> honest (SFind p') out"
      using that flt honest_hides [of p' out] by (simp add: settle_find del: step.simps)
    show ?thesis
      using f a b by (simp add: Let_def r_def [symmetric] del: step.simps)
  qed
  show "let p' = JObj (map_set ''query'' (JObj (map_set ''internal'' ne_true q)) ps)
        in step B (Call t Opts c (Find (JObj ps))) s = base_find B Opts p' (Client c) s
         \<and> path [''query'', ''internal''] p' = ne_true
         \<and> (honest_run B evs (init inc cach) \<longrightarrow>
             (let r = run B evs (init inc cach)
              in filtered r
               \<and> (case map_of (cachedFind (opts r)) (stringify B p') of
                    Some e \<Rightarrow> step B (Call t Opts c (Find (JObj ps))) r
                                = r\<lparr>delivered := delivered r @ [(c, e)]\<rparr>
                              \<and> hides_internal e
                  | None \<Rightarrow> step B (Call t Opts c (Find (JObj ps))) r
                                = dispatch Opts (SFind p') (FindK (stringify B p') (Client c)) r)
               \<and> (map_of (pending r) p = Some (Opts, SFind p', FindK key (Client c))
                    \<and> honest (SFind p') out \<longrightarrow>
                  delivered (step B (Settle t' p out) r) = delivered r @ [(c, formatData out)]
                  \<and> hides_internal (formatData out))))"
    using 1 2 3 unfolding p'_def [symmetric] Let_def by blast
qed


theorem options_find_hides_internal_witness:
  "step js (Call 0 Opts 1 (Find JUndefined)) (init False True)
       = (init False True)\<lparr>raised := raised (init False True) @ [(1, ''TypeError'')]\<rparr>
   \<and> map_of [(''query'', JObj [(''internal'', JBool True)])] ''query''
       = Some (JObj [(''internal'', JBool True)])
   \<and> path [''query'', ''internal'']
        (JObj (map_set ''query'' (JObj (map_set ''internal'' ne_true [(''internal'', JBool True)]))
                 [(''query'', JObj [(''internal'', JBool True)])])) = ne_true
   \<and> map_of (pending (run js [Call 0 Opts 1
                                 (Find (JObj [(''query'', JObj [(''internal'', JBool True)])]))]
                          (init False True))) 0
       = Some (Opts,
               SFind (JObj (map_set ''query''
                              (JObj (map_set ''internal'' ne_true [(''internal'', JBool True)]))
                              [(''query'', JObj [(''internal'', JBool True)])])),
               FindK ''{query:{internal:{$ne:true,},},}'' (Client 1))
   \<and> delivered (step js (Settle 1 0 (Resolved (JArr [JObj [(''_id'', JStr ''theme'')]])))
                  (run js [Call 0 Opts 1
                             (Find (JObj [(''query'', JObj [(''internal'', JBool True)])]))]
                     (init False True)))
       = delivered (run js [Call 0 Opts 1
                              (Find (JObj [(''query'', JObj [(''internal'', JBool True)])]))]
                      (init False True))
         @ [(1, formatData (Resolved (JArr [JObj [(''_id'', JStr ''theme'')]])))]
   \<and> hides_internal (formatData (Resolved (JArr [JObj [(''_id'', JStr ''theme'')]])))"
proof -
  let ?ps = "[(''query'', JObj [(''internal'', JBool True)])]"
  let ?q = "[(''internal'', JBool True)]"
  let ?p' = "JObj (map_set ''query'' (JObj (map_set ''internal'' ne_true ?q)) ?ps)"
  let ?evs = "[Call 0 Opts 1 (Find (JObj ?ps))]"
  let ?out = "Resolved (JArr [JObj [(''_id'', JStr ''theme'')]])"
  have h1: "lacks_query JUndefined"
    by (simp add: lacks_query_def)
  have h2: "map_of ?ps ''query'' = Some (JObj ?q)"
    by simp
  have h3: "honest_run js ?evs (init False True)"
    by (simp add: honest_at_def)
  have h4: "map_of (pending (run js ?evs (init False True))) 0
              = Some (Opts, SFind ?p', FindK ''{query:{internal:{$ne:true,},},}'' (Client 1))"
    by code_simp
  have h5: "honest (SFind ?p') ?out"
    by code_simp
  note T = options_find_hides_internal
             [where B = js and params = JUndefined and t = 0 and c = 1 and s = "init False True"
                and ps = ?ps and q = ?q and evs = ?evs and inc = False and cach = True
                and p = 0 and key = "''{query:{internal:{$ne:true,},},}''" and out = ?out
                and t' = 1]
  from T h1 have c1: "step js (Call 0 Opts 1 (Find JUndefined)) (init False True)
       = (init False True)\<lparr>raised := raised (init False True) @ [(1, ''TypeError'')]\<rparr>"
    by blast
  from T h2 h3 h4 h5 have c2: "path [''query'', ''internal''] ?p' = ne_true"
    and c3: "delivered (step js (Settle 1 0 ?out) (run js ?evs (init False True)))
       = delivered (run js ?evs (init False True)) @ [(1, formatData ?out)]"
    and c4: "hides_internal (formatData ?out)"
    unfolding Let_def by blast+
  show ?thesis
    using h2 h4 c1 c2 c3 c4 by blast
qed


subsection \<open>C6: the \<^verbatim>\<open>updated\<close> stamp\<close>

text \<open>
  C6 says that \<^verbatim>\<open>update\<close> and \<^verbatim>\<open>patch\<close> both hand the store data carrying a fresh
  \<^verbatim>\<open>updated\<close> timestamp. \<^verbatim>\<open>update\<close> does (line 210); \<^verbatim>\<open>patch\<close> (lines 219-226) has
  no such line. At clock 5, \<^verbatim>\<open>patch('7', {title: 'x'})\<close> reaches the store with exactly
  \<^verbatim>\<open>{title: 'x'}\<close>, which has no \<^verbatim>\<open>updated\<close> property, while \<^verbatim>\<open>update\<close> with the same
  arguments sends \<^verbatim>\<open>{title: 'x', updated: Date(5)}\<close>.
\<close>

theorem patch_sends_no_updated_stamp:
  "dispatched (run js [Call 5 Docs 1 (Patch (JStr ''7'') (JObj [(''title'', JStr ''x'')]) JUndefined)]
                 (init True True))
     = [(Docs, SPatch (JStr ''7'') (JObj [(''title'', JStr ''x'')]) JUndefined)]
   \<and> get_prop ''updated'' (JObj [(''title'', JStr ''x'')]) = JUndefined
   \<and> dispatched (run js [Call 5 Docs 1 (Update (JStr ''7'') [(''title'', JStr ''x'')] JUndefined)]
                 (init True True))
     = [(Docs, SUpdate (JStr ''7'') (JObj [(''title'', JStr ''x''), (''updated'', JDate 5)])
                 JUndefined)]"
  by code_simp

subsection \<open>C9: the guard of \<^verbatim>\<open>OptionsService.create\<close>\<close>

text \<open>
  C9 says that a create on the Options service without \<^verbatim>\<open>_id\<close> comes back as an
  \<^verbatim>\<open>Error\<close> envelope and never as a raised exception. The guard (lines 22-25 of
  \<^verbatim>\<open>src/api/options/index.ts\<close>) is a \<^verbatim>\<open>throw\<close> in a method that is not \<^verbatim>\<open>async\<close>
  and that runs before \<^verbatim>\<open>formatData\<close> is reached: the error is raised to the caller. On
  a new service, \<^verbatim>\<open>create({value: 1})\<close> raises and leaves everything else as it was: no
  envelope is delivered and nothing is pending that could deliver one.
\<close>

theorem options_create_without_id_raises:
  "run js [Call 0 Opts 1 (Create [(''value'', JNum 1)] JUndefined)] (init False True)
     = (init False True)\<lparr>raised := [(1, ''ID parameter is mandatory!'')]\<rparr>
   \<and> delivered (init False True) = [] \<and> pending (init False True) = []"
  by code_simp

text \<open>
  C9 as amended: for every call of the Options service's \<^verbatim>\<open>create\<close> with data whose
  \<^verbatim>\<open>_id\<close> is missing (or falsy), the guard raises the error
  \<^verbatim>\<open>ID parameter is mandatory!\<close> to the caller, in any state of the system, and the call
  does nothing else: no envelope, no store call, no change of the service.
\<close>

theorem options_create_guard:
  "\<not> truthy (get_prop ''_id'' (JObj data)) \<Longrightarrow>
     step B (Call now Opts c (Create data params)) s
       = s\<lparr>raised := raised s @ [(c, ''ID parameter is mandatory!'')]\<rparr>"
  by (simp add: call_def create_def options_create_def throw_def)

theorem options_create_guard_witness:
  "\<not> truthy (get_prop ''_id'' (JObj [])) \<and>
   step js (Call 3 Opts 2 (Create [] (JObj []))) (init True True)
     = (init True True)\<lparr>raised := raised (init True True) @ [(2, ''ID parameter is mandatory!'')]\<rparr>"
  using options_create_guard [of "[]" js 3 2 "JObj []" "init True True"]
  by (simp add: get_prop_def)

subsection \<open>C2: a rejected create leaves the caches as they were\<close>

text \<open>
  C2 says that every mutation, whether its envelope is \<^verbatim>\<open>OK\<close> or \<^verbatim>\<open>Error\<close>, has
  cleared both caches when it completes. \<^verbatim>\<open>update\<close>, \<^verbatim>\<open>patch\<close> and \<^verbatim>\<open>remove\<close> wrap
  the store call in \<^verbatim>\<open>formatData\<close> and then clear; \<^verbatim>\<open>createNormal\<close> awaits the store
  call bare (line 152), so a rejection skips \<^verbatim>\<open>clearCache\<close> (line 153) and the reset of
  \<^verbatim>\<open>isCreationInProcess\<close> (line 154). The run: \<^verbatim>\<open>find({})\<close> is answered by the store
  and cached; \<^verbatim>\<open>create({title: 'x'})\<close> is rejected by the store; \<^verbatim>\<open>find({})\<close> again.
  The second find is answered from the cache: the store has seen one find only, the
  cache still holds the entry, and the creation flag is still set. With \<^verbatim>\<open>update\<close> in
  place of \<^verbatim>\<open>create\<close>, the second find goes to the store.
\<close>

theorem rejected_create_keeps_cache:
  "(let s = run js [Call 0 Docs 1 (Find (JObj [])),
                    Settle 1 0 (Resolved (JArr [])),
                    Call 2 Docs 2 (Create [(''title'', JStr ''x'')] JUndefined),
                    Settle 3 1 (Rejected ''boom''),
                    Call 4 Docs 3 (Find (JObj []))] (init False True)
    in delivered s = [(1, formatData (Resolved (JArr []))),
                      (2, formatData (Rejected ''boom'')),
                      (3, formatData (Resolved (JArr [])))]
     \<and> dispatched s = [(Docs, SFind (JObj [])),
                       (Docs, SCreate (JObj [(''title'', JStr ''x''), (''created'', JDate 2)])
                                JUndefined)]
     \<and> pending s = []
     \<and> cachedFind (docs s) = [(''{}'', formatData (Resolved (JArr [])))]
     \<and> isCreationInProcess (docs s))
   \<and>
   (let s = run js [Call 0 Docs 1 (Find (JObj [])),
                    Settle 1 0 (Resolved (JArr [])),
                    Call 2 Docs 2 (Update (JStr ''7'') [(''title'', JStr ''x'')] JUndefined),
                    Settle 3 1 (Rejected ''boom''),
                    Call 4 Docs 3 (Find (JObj []))] (init False True)
    in delivered s = [(1, formatData (Resolved (JArr []))),
                      (2, formatData (Rejected ''boom''))]
     \<and> pending s = [(2, Docs, SFind (JObj []), FindK ''{}'' (Client 3))]
     \<and> cachedFind (docs s) = [])"
  by code_simp

subsection \<open>C3: the creation queue is a \<^verbatim>\<open>Map\<close> keyed by the request's text\<close>

text \<open>
  C3 says that creates issued without awaiting reach the store in arrival order and that
  none is lost, also when two queued requests carry identical data and params. The queue
  (line 192) is a \<^verbatim>\<open>Map\<close> whose key is \<^verbatim>\<open>JSON.stringify([data, params])\<close>: the second
  of two identical requests (same data, same params, stamped in the same millisecond)
  overwrites the entry of the first, and with it the first's \<^verbatim>\<open>resolve\<close>. The run:
  clients 1, 2 and 3 call \<^verbatim>\<open>create\<close> at clock 0 with \<^verbatim>\<open>{t: 'a'}\<close>, \<^verbatim>\<open>{t: 'b'}\<close> and
  \<^verbatim>\<open>{t: 'b'}\<close>; the store then resolves every insert it is given. The store is given two
  inserts, not three; clients 3 and 1 get their envelopes; client 2 gets none, and nothing
  is left (no pending store call, an empty queue) that could ever give it one.
\<close>

theorem identical_queued_create_is_lost:
  "(let s = run js [Call 0 Docs 1 (Create [(''t'', JStr ''a'')] JUndefined),
                    Call 0 Docs 2 (Create [(''t'', JStr ''b'')] JUndefined),
                    Call 0 Docs 3 (Create [(''t'', JStr ''b'')] JUndefined),
                    Settle 1 0 (Resolved (JObj [(''t'', JStr ''a'')])),
                    Settle 2 1 (Resolved (JObj [(''t'', JStr ''b'')]))] (init False True)
    in dispatched s = [(Docs, SCreate (JObj [(''t'', JStr ''a''), (''created'', JDate 0)])
                                JUndefined),
                       (Docs, SCreate (JObj [(''t'', JStr ''b''), (''created'', JDate 1)])
                                JUndefined)]
     \<and> delivered s = [(3, formatData (Resolved (JObj [(''t'', JStr ''b'')]))),
                      (1, formatData (Resolved (JObj [(''t'', JStr ''a'')])))]
     \<and> pending s = []
     \<and> creationQueue (docs s) = []
     \<and> \<not> isCreationInProcess (docs s))"
  by code_simp

subsection \<open>C4: the counter is written without being awaited\<close>

text \<open>
  C4 says that on an empty incremental service the first three creates get the
  identifiers \<^verbatim>\<open>"0"\<close>, \<^verbatim>\<open>"1"\<close>, \<^verbatim>\<open>"2"\<close>, also when issued concurrently. Line 175 awaits
  \<^verbatim>\<open>newId\<close>, not the write of the counter, so the insert of the document and the write
  of the counter are both in flight, in two stores. The run: three creates at clock 0; the
  Options store has no counter yet (the read is rejected), then stores it (value 0); the
  first insert resolves; the second create reads the counter from the store (value 0,
  now cached by the Options service), sends the update to value 1 and inserts document
  \<^verbatim>\<open>"1"\<close>; that insert resolves before the update does. The third create then reads the
  counter from the Options service's cache, which the unfinished update has not cleared
  yet: it gets 0 again and inserts a second document \<^verbatim>\<open>"1"\<close>. Every answer of the two
  stores in this run is what a correct store would answer.
\<close>

theorem concurrent_creates_repeat_an_id:
  "(let s = run js [Call 0 Docs 1 (Create [(''t'', JStr ''a'')] JUndefined),
                    Call 0 Docs 2 (Create [(''t'', JStr ''b'')] JUndefined),
                    Call 0 Docs 3 (Create [(''t'', JStr ''c'')] JUndefined),
                    Settle 1 0 (Rejected ''NotFound''),
                    Settle 2 1 (Resolved (JObj [(''_id'', JStr ''last_id''), (''value'', JNum 0),
                                                (''internal'', JBool True)])),
                    Settle 3 2 (Resolved (JObj [(''t'', JStr ''a''), (''_id'', JStr ''0'')])),
                    Settle 4 3 (Resolved (JObj [(''_id'', JStr ''last_id''), (''value'', JNum 0),
                                                (''internal'', JBool True)])),
                    Settle 5 5 (Resolved (JObj [(''t'', JStr ''b''), (''_id'', JStr ''1'')]))]
                   (init True True)
    in dispatched s =
        [(Opts, SGet (JStr ''last_id'') JUndefined),
         (Opts, SCreate (JObj [(''_id'', JStr ''last_id''), (''value'', JNum 0),
                               (''internal'', JBool True), (''created'', JDate 1)]) JUndefined),
         (Docs, SCreate (JObj [(''t'', JStr ''a''), (''created'', JDate 0), (''_id'', JStr ''0'')])
                  JUndefined),
         (Opts, SGet (JStr ''last_id'') JUndefined),
         (Opts, SUpdate (JStr ''last_id'')
                  (JObj [(''value'', JNum 1), (''internal'', JBool True), (''updated'', JDate 4)])
                  JUndefined),
         (Docs, SCreate (JObj [(''t'', JStr ''b''), (''created'', JDate 3), (''_id'', JStr ''1'')])
                  JUndefined),
         (Opts, SUpdate (JStr ''last_id'')
                  (JObj [(''value'', JNum 1), (''internal'', JBool True), (''updated'', JDate 5)])
                  JUndefined),
         (Docs, SCreate (JObj [(''t'', JStr ''c''), (''created'', JDate 5), (''_id'', JStr ''1'')])
                  JUndefined)]
     \<and> map fst (pending s) = [4, 6, 7])"
  by code_simp

subsection \<open>C5: a counter that cannot be read\<close>

text \<open>
  C5 says that a failure of the Options service to read or write the counter is thrown
  inside the creation path and reaches the caller as an \<^verbatim>\<open>Error\<close> envelope. The
  Options service never throws on \<^verbatim>\<open>get\<close>: it returns an \<^verbatim>\<open>Error\<close> envelope, and lines
  171-173 take anything but \<^verbatim>\<open>OK\<close> to mean that there is no counter yet. The run: one
  create on an incremental service; the Options store rejects the read of the counter
  and then the write of it; the insert of the document resolves. The caller gets an
  \<^verbatim>\<open>OK\<close> envelope for document \<^verbatim>\<open>"0"\<close>, and nothing is raised.
\<close>

theorem unreadable_counter_is_not_an_error:
  "(let s = run js [Call 0 Docs 1 (Create [(''t'', JStr ''a'')] JUndefined),
                    Settle 1 0 (Rejected ''EIO''),
                    Settle 2 1 (Rejected ''EIO''),
                    Settle 3 2 (Resolved (JObj [(''t'', JStr ''a''), (''_id'', JStr ''0'')]))]
                   (init True True)
    in delivered s = [(1, \<lparr>resultCode = OK,
                            payload = Some (JObj [(''t'', JStr ''a''), (''_id'', JStr ''0'')]),
                            errorMessage = None\<rparr>)]
     \<and> raised s = []
     \<and> dispatched s =
        [(Opts, SGet (JStr ''last_id'') JUndefined),
         (Opts, SCreate (JObj [(''_id'', JStr ''last_id''), (''value'', JNum 0),
                               (''internal'', JBool True), (''created'', JDate 1)]) JUndefined),
         (Docs, SCreate (JObj [(''t'', JStr ''a''), (''created'', JDate 0), (''_id'', JStr ''0'')])
                  JUndefined)])"
  by code_simp

lemma show_int_0 [simp]: "show_int 0 = ''0''"
  by code_simp

lemma next_id_error: "resultCode e = Error \<Longrightarrow> next_id B e = Inr (JNum 0)"
  by (simp add: next_id_def)

lemma allocate_unread:
  assumes "resultCode e = Error"
  shows "createIncremental_cont B t data params aw e s
           = createNormal Docs (map_set ''_id'' (JStr ''0'') data) params aw
               (base_create B (createNormal Opts) Opts t
                  [(''_id'', JStr ''last_id''), (''value'', JNum 0), (''internal'', JBool True)]
                  JUndefined Unobserved s)"
  using assms
  by (simp add: createIncremental_cont_def next_id_error gt_zero_def options_create_def
                get_prop_def optionLastId_def to_String_def)


lemma fresh_beyond:
  "fresh s \<Longrightarrow> nextp s \<le> k \<Longrightarrow> map_of (map_delete p (pending s) @ xs) k = map_of xs k"
proof -
  assume "fresh s" and "nextp s \<le> k"
  then have "map_of (map_delete p (pending s)) k = None"
    by (auto simp: fresh_def list_all_iff map_delete_def map_of_eq_None_iff)
  then show ?thesis
    by (simp add: map_add_def)
qed

lemma settle_unread:
  fixes B :: builtins and t :: nat and msg :: string
  assumes fr: "fresh s"
      and p: "map_of (pending s) p = Some (Opts, cl, GetK key (Allocator data params aw))"
  defines "s1 \<equiv> step B (Settle t p (Rejected msg)) s"
      and "n \<equiv> (if isCreationInProcess (opts s) then nextp s else Suc (nextp s))"
      and "doc \<equiv> SCreate (JObj (map_set ''_id'' (JStr ''0'') data)) params"
  shows "raised s1 = raised s"
    and "delivered s1 = delivered s"
    and "dispatched s1 = dispatched s
            @ (if isCreationInProcess (opts s) then []
               else [(Opts, SCreate (JObj [(''_id'', JStr ''last_id''), (''value'', JNum 0),
                                           (''internal'', JBool True), (''created'', JDate t)])
                              JUndefined)])
            @ [(Docs, doc)]"
    and "map_of (pending s1) n = Some (Docs, doc, CreateK aw)"
    and "docs s1 = docs s"
proof -
  let ?s' = "s\<lparr>pending := map_delete p (pending s)\<rparr>"
  let ?counter = "[(''_id'', JStr ''last_id''), (''value'', JNum 0), (''internal'', JBool True)]"
  have s1: "s1 = createNormal Docs (map_set ''_id'' (JStr ''0'') data) params aw
                   (base_create B (createNormal Opts) Opts t ?counter JUndefined Unobserved ?s')"
    using p by (simp add: s1_def settle_def get_cont_def Let_def allocate_unread)
  show "raised s1 = raised s" "delivered s1 = delivered s" "docs s1 = docs s"
    by (simp_all add: s1 createNormal_def base_create_def Let_def)
  show "dispatched s1 = dispatched s
            @ (if isCreationInProcess (opts s) then []
               else [(Opts, SCreate (JObj [(''_id'', JStr ''last_id''), (''value'', JNum 0),
                                           (''internal'', JBool True), (''created'', JDate t)])
                              JUndefined)])
            @ [(Docs, doc)]"
    by (simp add: s1 createNormal_def base_create_def Let_def doc_def)
  show "map_of (pending s1) n = Some (Docs, doc, CreateK aw)"
    using fr
    by (simp add: s1 createNormal_def base_create_def Let_def doc_def n_def fresh_beyond
             del: map_of_append)
qed

lemma settle_insert_queued:
  assumes p: "map_of (pending s) n = Some (Docs, sc, CreateK aw)"
      and q: "creationQueue (docs s) = (qkey, val) # rest"
      and inc: "incremental s"
  shows "step B (Settle t n (Resolved v)) s
           = base_create B (createIncremental B t) Docs t (q_data val) (q_params val)
               (Replay (q_resolve val) v aw)
               (on_service Docs (\<lambda>u. u\<lparr>creationQueue := map_delete qkey (creationQueue u)\<rparr>)
                  (on_service Docs (\<lambda>u. (clearCache u)\<lparr>isCreationInProcess := False\<rparr>)
                     (s\<lparr>pending := map_delete n (pending s)\<rparr>)))"
  using p q inc
  by (simp add: settle_def createNormal_cont_def Let_def clearCache_def create_def)

lemma allocator_reads:
  assumes "incremental s" and "\<not> isCreationInProcess (docs s)"
      and "map_of (cachedGet (opts s)) (stringify B (JArr [JStr ''last_id'', JUndefined])) = None"
  shows "step B (Call t Docs c (Create data params)) s
           = dispatch Opts (SGet (JStr ''last_id'') JUndefined)
               (GetK (stringify B (JArr [JStr ''last_id'', JUndefined]))
                  (Allocator (map_set ''created'' (JDate t) data) params (Client c)))
               (on_service Docs (\<lambda>u. u\<lparr>isCreationInProcess := True\<rparr>) s)"
  using assms
  by (simp add: call_def throw_def create_def base_create_def Let_def createIncremental_def
                base_get_def optionLastId_def is_cacheable_def)

text \<open>
  C5 as amended, on an incremental service in any state \<open>s\<close> that a run can reach.

  A create that finds no create in process and no counter in the cache of the Options
  service asks the Options store for the counter, and its allocator waits for the answer.
  (Were the store's \<^verbatim>\<open>get\<close> to throw at that point, the promise of the Options
  service's \<^verbatim>\<open>get\<close> would be rejected, and the create answered with the \<^verbatim>\<open>Error\<close>
  envelope of that error.)

  Let the allocator of a create with awaiter \<open>aw\<close> (a client, or the replay of a queued
  create at line 161) wait for the read \<open>p\<close> of the counter, and let the Options store
  reject that read. Nothing is raised and nothing is delivered yet: the allocator takes
  the counter to be absent, has the Options service create the counter document
  \<^verbatim>\<open>{_id: 'last_id', value: 0, internal: true}\<close> (sent to the store at once unless the
  Options service has a create in process, in which case it is queued there), gives the
  document the identifier \<^verbatim>\<open>"0"\<close> and sends its insert to the store. The create's
  envelope is \<^verbatim>\<open>formatData\<close>'s wrap of that insert. When the insert is rejected:
  \<^verbatim>\<open>Error\<close> with the store's message, delivered at once, with no further store call (no
  retry). When it resolves: \<^verbatim>\<open>OK\<close> with the stored document, delivered at once when no
  create is queued on the service; when one is, \<^verbatim>\<open>createNormal\<close> goes on to replay the
  oldest queued create, and whatever envelope \<open>e\<close> answers that replay goes to the queued
  caller first, the \<^verbatim>\<open>OK\<close> envelope to \<open>aw\<close> after it.
\<close>

theorem unread_counter_means_id_zero:
  "(let s = run B evs (init True cach);
        ckey = stringify B (JArr [JStr ''last_id'', JUndefined])
    in (\<not> isCreationInProcess (docs s) \<and> map_of (cachedGet (opts s)) ckey = None \<longrightarrow>
          step B (Call tc Docs c (Create cdata cparams)) s
            = dispatch Opts (SGet (JStr ''last_id'') JUndefined)
                (GetK ckey (Allocator (map_set ''created'' (JDate tc) cdata) cparams (Client c)))
                (on_service Docs (\<lambda>u. u\<lparr>isCreationInProcess := True\<rparr>) s)
          \<and> delivered (step B (Faulty tc Docs c (Create cdata cparams) msg) s)
              = delivered s
                @ [(c, \<lparr>resultCode = Error, payload = None, errorMessage = Some msg\<rparr>)]
          \<and> raised (step B (Faulty tc Docs c (Create cdata cparams) msg) s) = raised s)
     \<and> (map_of (pending s) p = Some (Opts, cl, GetK key (Allocator data params aw)) \<longrightarrow>
       (let s1 = step B (Settle t p (Rejected msg)) s;
            n = (if isCreationInProcess (opts s) then nextp s else Suc (nextp s));
            doc = SCreate (JObj (map_set ''_id'' (JStr ''0'') data)) params
        in raised s1 = raised s
         \<and> delivered s1 = delivered s
         \<and> dispatched s1 = dispatched s
              @ (if isCreationInProcess (opts s) then []
                 else [(Opts, SCreate (JObj [(''_id'', JStr ''last_id''), (''value'', JNum 0),
                                             (''internal'', JBool True), (''created'', JDate t)])
                                JUndefined)])
              @ [(Docs, doc)]
         \<and> map_of (pending s1) n = Some (Docs, doc, CreateK aw)
         \<and> delivered (step B (Settle t' n (Rejected m)) s1)
             = delivered s
               @ deliveries aw \<lparr>resultCode = Error, payload = None, errorMessage = Some m\<rparr>
         \<and> dispatched (step B (Settle t' n (Rejected m)) s1) = dispatched s1
         \<and> raised (step B (Settle t' n (Rejected m)) s1) = raised s
         \<and> (case creationQueue (docs s) of
              [] \<Rightarrow> delivered (step B (Settle t' n (Resolved v)) s1)
                      = delivered s
                        @ deliveries aw \<lparr>resultCode = OK, payload = Some v, errorMessage = None\<rparr>
            | (qkey, val) # rest \<Rightarrow>
                step B (Settle t' n (Resolved v)) s1
                  = base_create B (createIncremental B t') Docs t' (q_data val) (q_params val)
                      (Replay (q_resolve val) v aw)
                      (on_service Docs
                         (\<lambda>u. u\<lparr>creationQueue := map_delete qkey (creationQueue u)\<rparr>)
                         (on_service Docs (\<lambda>u. (clearCache u)\<lparr>isCreationInProcess := False\<rparr>)
                            (s1\<lparr>pending := map_delete n (pending s1)\<rparr>))))
         \<and> deliveries (Replay r v aw) e
             = deliveries r e
               @ deliveries aw \<lparr>resultCode = OK, payload = Some v, errorMessage = None\<rparr>)))"
proof -
  define s where "s = run B evs (init True cach)"
  define ckey where "ckey = stringify B (JArr [JStr ''last_id'', JUndefined])"
  have fr: "fresh s"
    unfolding s_def by (rule fresh_run)
  have inc: "incremental s"
    unfolding s_def using flags_run [of B evs True cach] by simp
  have a: "step B (Call tc Docs c (Create cdata cparams)) s
            = dispatch Opts (SGet (JStr ''last_id'') JUndefined)
                (GetK ckey (Allocator (map_set ''created'' (JDate tc) cdata) cparams (Client c)))
                (on_service Docs (\<lambda>u. u\<lparr>isCreationInProcess := True\<rparr>) s)
          \<and> delivered (step B (Faulty tc Docs c (Create cdata cparams) msg) s)
              = delivered s
                @ [(c, \<lparr>resultCode = Error, payload = None, errorMessage = Some msg\<rparr>)]
          \<and> raised (step B (Faulty tc Docs c (Create cdata cparams) msg) s) = raised s"
    if h: "\<not> isCreationInProcess (docs s) \<and> map_of (cachedGet (opts s)) ckey = None"
  proof -
    let ?k = "GetK ckey (Allocator (map_set ''created'' (JDate tc) cdata) cparams (Client c))"
    let ?s0 = "on_service Docs (\<lambda>u. u\<lparr>isCreationInProcess := True\<rparr>) s"
    have 1: "step B (Call tc Docs c (Create cdata cparams)) s
               = dispatch Opts (SGet (JStr ''last_id'') JUndefined) ?k ?s0"
      using h inc unfolding ckey_def by (intro allocator_reads) simp_all
    then have "call B tc Docs c (Create cdata cparams) s
               = dispatch Opts (SGet (JStr ''last_id'') JUndefined) ?k ?s0"
      by simp
    then have "step B (Faulty tc Docs c (Create cdata cparams) msg) s
                 = thrown ?k msg ((dispatch Opts (SGet (JStr ''last_id'') JUndefined) ?k ?s0)
                                    \<lparr>pending := pending s\<rparr>)"
      by (intro faulty_one [OF fr]) simp_all
    then show ?thesis
      using 1 by (simp add: thrown_def finish_eq formatData_def del: step.simps)
  qed
  have b: "(let s1 = step B (Settle t p (Rejected msg)) s;
            n = (if isCreationInProcess (opts s) then nextp s else Suc (nextp s));
            doc = SCreate (JObj (map_set ''_id'' (JStr ''0'') data)) params
        in raised s1 = raised s
         \<and> delivered s1 = delivered s
         \<and> dispatched s1 = dispatched s
              @ (if isCreationInProcess (opts s) then []
                 else [(Opts, SCreate (JObj [(''_id'', JStr ''last_id''), (''value'', JNum 0),
                                             (''internal'', JBool True), (''created'', JDate t)])
                                JUndefined)])
              @ [(Docs, doc)]
         \<and> map_of (pending s1) n = Some (Docs, doc, CreateK aw)
         \<and> delivered (step B (Settle t' n (Rejected m)) s1)
             = delivered s
               @ deliveries aw \<lparr>resultCode = Error, payload = None, errorMessage = Some m\<rparr>
         \<and> dispatched (step B (Settle t' n (Rejected m)) s1) = dispatched s1
         \<and> raised (step B (Settle t' n (Rejected m)) s1) = raised s
         \<and> (case creationQueue (docs s) of
              [] \<Rightarrow> delivered (step B (Settle t' n (Resolved v)) s1)
                      = delivered s
                        @ deliveries aw \<lparr>resultCode = OK, payload = Some v, errorMessage = None\<rparr>
            | (qkey, val) # rest \<Rightarrow>
                step B (Settle t' n (Resolved v)) s1
                  = base_create B (createIncremental B t') Docs t' (q_data val) (q_params val)
                      (Replay (q_resolve val) v aw)
                      (on_service Docs
                         (\<lambda>u. u\<lparr>creationQueue := map_delete qkey (creationQueue u)\<rparr>)
                         (on_service Docs (\<lambda>u. (clearCache u)\<lparr>isCreationInProcess := False\<rparr>)
                            (s1\<lparr>pending := map_delete n (pending s1)\<rparr>))))
         \<and> deliveries (Replay r v aw) e
             = deliveries r e
               @ deliveries aw \<lparr>resultCode = OK, payload = Some v, errorMessage = None\<rparr>)"
    if p: "map_of (pending s) p = Some (Opts, cl, GetK key (Allocator data params aw))"
  proof -
    define s1 where "s1 = step B (Settle t p (Rejected msg)) s"
    define n where "n = (if isCreationInProcess (opts s) then nextp s else Suc (nextp s))"
    define doc where "doc = SCreate (JObj (map_set ''_id'' (JStr ''0'') data)) params"
    note u = settle_unread [OF fr p, of B t msg, folded s1_def n_def doc_def]
    have inc1: "incremental s1"
      unfolding s1_def using inc by (simp add: settle_def get_cont_def Let_def p allocate_unread
                                               createNormal_def base_create_def)
    have rj: "delivered (step B (Settle t' n (Rejected m)) s1)
                = delivered s
                  @ deliveries aw \<lparr>resultCode = Error, payload = None, errorMessage = Some m\<rparr>"
      using settle_insert(1) [OF u(4), of B t' m] u(2) by (simp add: formatData_def)
    have rd: "dispatched (step B (Settle t' n (Rejected m)) s1) = dispatched s1"
      using u(4) by (simp add: settle_def createNormal_cont_def finish_eq)
    have rr: "raised (step B (Settle t' n (Rejected m)) s1) = raised s"
      using u(1) by simp
    have rs: "(case creationQueue (docs s) of
              [] \<Rightarrow> delivered (step B (Settle t' n (Resolved v)) s1)
                      = delivered s
                        @ deliveries aw \<lparr>resultCode = OK, payload = Some v, errorMessage = None\<rparr>
            | (qkey, val) # rest \<Rightarrow>
                step B (Settle t' n (Resolved v)) s1
                  = base_create B (createIncremental B t') Docs t' (q_data val) (q_params val)
                      (Replay (q_resolve val) v aw)
                      (on_service Docs
                         (\<lambda>u. u\<lparr>creationQueue := map_delete qkey (creationQueue u)\<rparr>)
                         (on_service Docs (\<lambda>u. (clearCache u)\<lparr>isCreationInProcess := False\<rparr>)
                            (s1\<lparr>pending := map_delete n (pending s1)\<rparr>))))"
    proof (cases "creationQueue (docs s)")
      case Nil
      then have "creationQueue (the_service s1 Docs) = []"
        using u(5) by simp
      then show ?thesis
        using settle_insert(2) [OF u(4), of B t' v] u(2) Nil by (simp add: formatData_def)
    next
      case (Cons kv rest)
      obtain qkey val where kv: "kv = (qkey, val)"
        by (cases kv)
      have "creationQueue (docs s1) = (qkey, val) # rest"
        using Cons kv u(5) by simp
      then show ?thesis
        using settle_insert_queued [OF u(4) _ inc1, of qkey val rest B t' v] Cons kv
        by (simp del: step.simps)
    qed
    have dl: "deliveries (Replay r v aw) e
             = deliveries r e
               @ deliveries aw \<lparr>resultCode = OK, payload = Some v, errorMessage = None\<rparr>"
      by (simp add: formatData_def)
    show ?thesis
      unfolding Let_def s1_def [symmetric] n_def [symmetric] doc_def [symmetric]
      using u(1,2,3,4) rj rd rr rs dl by blast
  qed
  show ?thesis
    unfolding Let_def s_def [symmetric] ckey_def [symmetric]
    using a b [unfolded Let_def] by blast
qed

theorem unread_counter_means_id_zero_witness:
  "map_of (cachedGet (opts (run js [] (init True True)))) ''[\"last_id\",undefined,]'' = None
   \<and> step js (Call 0 Docs 1 (Create [(''t'', JStr ''a'')] JUndefined)) (run js [] (init True True))
       = dispatch Opts (SGet (JStr ''last_id'') JUndefined)
           (GetK ''[\"last_id\",undefined,]''
              (Allocator [(''t'', JStr ''a''), (''created'', JDate 0)] JUndefined (Client 1)))
           (on_service Docs (\<lambda>u. u\<lparr>isCreationInProcess := True\<rparr>) (run js [] (init True True)))
   \<and> delivered (step js (Faulty 0 Docs 1 (Create [(''t'', JStr ''a'')] JUndefined) ''boom'')
                  (run js [] (init True True)))
       = [(1, \<lparr>resultCode = Error, payload = None, errorMessage = Some ''boom''\<rparr>)]
   \<and> map_of (pending (run js [Call 0 Docs 1 (Create [(''t'', JStr ''a'')] JUndefined),
                               Call 0 Docs 2 (Create [(''t'', JStr ''b'')] JUndefined),
                               Settle 1 0 (Rejected ''EIO''),
                               Settle 2 2 (Resolved (JObj [(''t'', JStr ''a''), (''_id'', JStr ''0'')]))]
                         (init True True))) 3
       = Some (Opts, SGet (JStr ''last_id'') JUndefined,
               GetK ''[\"last_id\",undefined,]''
                 (Allocator [(''t'', JStr ''b''), (''created'', JDate 2)] JUndefined
                    (Replay (Client 2) (JObj [(''t'', JStr ''a''), (''_id'', JStr ''0'')])
                       (Client 1))))
   \<and> dispatched (step js (Settle 3 3 (Rejected ''EIO''))
        (run js [Call 0 Docs 1 (Create [(''t'', JStr ''a'')] JUndefined),
                 Call 0 Docs 2 (Create [(''t'', JStr ''b'')] JUndefined),
                 Settle 1 0 (Rejected ''EIO''),
                 Settle 2 2 (Resolved (JObj [(''t'', JStr ''a''), (''_id'', JStr ''0'')]))]
           (init True True)))
       = dispatched (run js [Call 0 Docs 1 (Create [(''t'', JStr ''a'')] JUndefined),
                 Call 0 Docs 2 (Create [(''t'', JStr ''b'')] JUndefined),
                 Settle 1 0 (Rejected ''EIO''),
                 Settle 2 2 (Resolved (JObj [(''t'', JStr ''a''), (''_id'', JStr ''0'')]))]
           (init True True))
         @ [(Docs, SCreate (JObj [(''t'', JStr ''b''), (''created'', JDate 2), (''_id'', JStr ''0'')])
                     JUndefined)]
   \<and> delivered (step js (Settle 4 4 (Rejected ''full''))
        (step js (Settle 3 3 (Rejected ''EIO''))
           (run js [Call 0 Docs 1 (Create [(''t'', JStr ''a'')] JUndefined),
                    Call 0 Docs 2 (Create [(''t'', JStr ''b'')] JUndefined),
                    Settle 1 0 (Rejected ''EIO''),
                    Settle 2 2 (Resolved (JObj [(''t'', JStr ''a''), (''_id'', JStr ''0'')]))]
              (init True True))))
       = [(2, \<lparr>resultCode = Error, payload = None, errorMessage = Some ''full''\<rparr>),
          (1, \<lparr>resultCode = OK, payload = Some (JObj [(''t'', JStr ''a''), (''_id'', JStr ''0'')]),
                errorMessage = None\<rparr>)]
   \<and> delivered (step js (Settle 4 4 (Resolved (JObj [(''t'', JStr ''b''), (''_id'', JStr ''0'')])))
        (step js (Settle 3 3 (Rejected ''EIO''))
           (run js [Call 0 Docs 1 (Create [(''t'', JStr ''a'')] JUndefined),
                    Call 0 Docs 2 (Create [(''t'', JStr ''b'')] JUndefined),
                    Settle 1 0 (Rejected ''EIO''),
                    Settle 2 2 (Resolved (JObj [(''t'', JStr ''a''), (''_id'', JStr ''0'')]))]
              (init True True))))
       = [(2, \<lparr>resultCode = OK, payload = Some (JObj [(''t'', JStr ''b''), (''_id'', JStr ''0'')]),
                errorMessage = None\<rparr>),
          (1, \<lparr>resultCode = OK, payload = Some (JObj [(''t'', JStr ''a''), (''_id'', JStr ''0'')]),
                errorMessage = None\<rparr>)]"
proof -
  let ?da = "JObj [(''t'', JStr ''a''), (''_id'', JStr ''0'')]"
  let ?db = "JObj [(''t'', JStr ''b''), (''_id'', JStr ''0'')]"
  let ?evs = "[Call 0 Docs 1 (Create [(''t'', JStr ''a'')] JUndefined),
               Call 0 Docs 2 (Create [(''t'', JStr ''b'')] JUndefined),
               Settle 1 0 (Rejected ''EIO''), Settle 2 2 (Resolved ?da)]"
  let ?s = "run js ?evs (init True True)"
  let ?i = "run js [] (init True True)"
  let ?aw = "Replay (Client 2) ?da (Client 1)"
  have k: "stringify js (JArr [JStr ''last_id'', JUndefined]) = ''[\"last_id\",undefined,]''"
    by code_simp
  have a: "isCreationInProcess (docs ?i) = False"
    "map_of (cachedGet (opts ?i)) ''[\"last_id\",undefined,]'' = None" "delivered ?i = []"
    by code_simp+
  have b: "map_of (pending ?s) 3
             = Some (Opts, SGet (JStr ''last_id'') JUndefined,
                     GetK ''[\"last_id\",undefined,]''
                       (Allocator [(''t'', JStr ''b''), (''created'', JDate 2)] JUndefined ?aw))"
    by code_simp
  have c: "isCreationInProcess (opts ?s) = True" "nextp ?s = 4" "delivered ?s = []"
    "creationQueue (docs ?s) = []"
    by code_simp+
  have d: "map_set ''_id'' (JStr ''0'') [(''t'', JStr ''b''), (''created'', JDate 2)]
             = [(''t'', JStr ''b''), (''created'', JDate 2), (''_id'', JStr ''0'')]"
    "map_set ''created'' (JDate 0) [(''t'', JStr ''a'')] = [(''t'', JStr ''a''), (''created'', JDate 0)]"
    by simp_all
  note A = unread_counter_means_id_zero
             [where B = js and evs = "[]" and cach = True and tc = 0 and c = 1
                and cdata = "[(''t'', JStr ''a'')]" and cparams = JUndefined and msg = "''boom''",
              unfolded Let_def k a d]
  note B = unread_counter_means_id_zero
             [where B = js and evs = ?evs and cach = True and p = 3
                and cl = "SGet (JStr ''last_id'') JUndefined"
                and key = "''[\"last_id\",undefined,]''"
                and data = "[(''t'', JStr ''b''), (''created'', JDate 2)]"
                and params = JUndefined and aw = ?aw and t = 3 and msg = "''EIO''"
                and t' = 4 and m = "''full''" and v = ?db,
              unfolded Let_def c d if_True list.case]
  from A have 1: "step js (Call 0 Docs 1 (Create [(''t'', JStr ''a'')] JUndefined)) ?i
       = dispatch Opts (SGet (JStr ''last_id'') JUndefined)
           (GetK ''[\"last_id\",undefined,]''
              (Allocator [(''t'', JStr ''a''), (''created'', JDate 0)] JUndefined (Client 1)))
           (on_service Docs (\<lambda>u. u\<lparr>isCreationInProcess := True\<rparr>) ?i)"
    and 2: "delivered (step js (Faulty 0 Docs 1 (Create [(''t'', JStr ''a'')] JUndefined) ''boom'') ?i)
       = [] @ [(1, \<lparr>resultCode = Error, payload = None, errorMessage = Some ''boom''\<rparr>)]"
    by blast+
  from B b have 3: "dispatched (step js (Settle 3 3 (Rejected ''EIO'')) ?s)
       = dispatched ?s @ [] @
         [(Docs, SCreate (JObj [(''t'', JStr ''b''), (''created'', JDate 2), (''_id'', JStr ''0'')])
                     JUndefined)]"
    and 4: "delivered (step js (Settle 4 4 (Rejected ''full'')) (step js (Settle 3 3 (Rejected ''EIO'')) ?s))
       = [] @ deliveries ?aw \<lparr>resultCode = Error, payload = None, errorMessage = Some ''full''\<rparr>"
    and 5: "delivered (step js (Settle 4 4 (Resolved ?db)) (step js (Settle 3 3 (Rejected ''EIO'')) ?s))
       = [] @ deliveries ?aw \<lparr>resultCode = OK, payload = Some ?db, errorMessage = None\<rparr>"
    by blast+
  show ?thesis
    using a(2) b 1 2 3 4 5 by (simp add: formatData_def del: step.simps run.simps)
qed

end
